theory Spec2Isabelle
  imports Main
begin

section \<open>The numeric framework, as far as the builders observe it\<close>

text \<open>
  The builders never execute a computation: they assemble a description of one. The
  framework's tensors are therefore symbolic terms carrying a static shape. A dimension
  is \<open>None\<close> when it is not known statically (the \<open>None\<close> of \<open>shape=[None, 5]\<close>).
\<close>

type_synonym shape = "nat option list"

datatype error = AttributeError | IndexError | TypeError | ValueError | Raised string

text \<open>A trainable parameter handle: creation index, shape and the framework's name.\<close>

datatype variable = Variable (var_id: nat) (var_shape: "nat list") (var_name: string)

datatype tensor =
    Placeholder shape string
  | Var variable
  | MatMul tensor tensor "string option"
  | Add tensor tensor "string option"
  | Op string "tensor list" shape "string option"

text \<open>What a Builder's \<open>tensor\<close> attribute can hold: Python's \<open>None\<close>, a tensor, or any
  other object (for instance the operation a \<open>minimize\<close> call returns).\<close>

datatype pyval = PyNone | Tensor tensor | Opaque nat

text \<open>Broadcasting of one pair of dimensions; \<open>None\<close> outside means incompatible.\<close>

fun bdim :: "nat option \<Rightarrow> nat option \<Rightarrow> nat option option" where
  "bdim (Some a) (Some b) =
     (if a = b then Some (Some a) else if a = 1 then Some (Some b)
      else if b = 1 then Some (Some a) else None)"
| "bdim None (Some b) = (if 1 < b then Some (Some b) else Some None)"
| "bdim (Some a) None = (if 1 < a then Some (Some a) else Some None)"
| "bdim None None = Some None"

fun bcast_rev :: "shape \<Rightarrow> shape \<Rightarrow> shape option" where
  "bcast_rev [] ys = Some ys"
| "bcast_rev xs [] = Some xs"
| "bcast_rev (x # xs) (y # ys) =
     (case bdim x y of None \<Rightarrow> None
      | Some d \<Rightarrow> (case bcast_rev xs ys of None \<Rightarrow> None | Some ds \<Rightarrow> Some (d # ds)))"

definition broadcast :: "shape \<Rightarrow> shape \<Rightarrow> shape option" where
  "broadcast a b = map_option rev (bcast_rev (rev a) (rev b))"

fun get_shape :: "tensor \<Rightarrow> shape" where
  "get_shape (Placeholder sh _) = sh"
| "get_shape (Var v) = map Some (var_shape v)"
| "get_shape (MatMul a b _) =
     (case (get_shape a, get_shape b) of
        ([r, _], [_, c]) \<Rightarrow> [r, c]
      | _ \<Rightarrow> [])"
| "get_shape (Add a b _) =
     (case broadcast (get_shape a) (get_shape b) of Some sh \<Rightarrow> sh | None \<Rightarrow> [])"
| "get_shape (Op _ _ sh _) = sh"

text \<open>\<open>tf.matmul\<close>: both operands of rank 2 with compatible inner dimensions, else the
  framework's shape inference raises.\<close>

definition dim_compatible :: "nat option \<Rightarrow> nat option \<Rightarrow> bool" where
  "dim_compatible a b = (a = None \<or> b = None \<or> a = b)"

definition tf_matmul :: "tensor \<Rightarrow> tensor \<Rightarrow> string option \<Rightarrow> error + tensor" where
  "tf_matmul a b name =
     (case (get_shape a, get_shape b) of
        ([_, k], [k', _]) \<Rightarrow>
          if dim_compatible k k' then Inr (MatMul a b name) else Inl ValueError
      | _ \<Rightarrow> Inl ValueError)"

text \<open>\<open>tf.add\<close>: the shapes must broadcast.\<close>

definition tf_add :: "tensor \<Rightarrow> tensor \<Rightarrow> string option \<Rightarrow> error + tensor" where
  "tf_add a b name =
     (case broadcast (get_shape a) (get_shape b) of
        Some _ \<Rightarrow> Inr (Add a b name)
      | None \<Rightarrow> Inl ValueError)"

text \<open>\<open>int(x.get_shape()[1])\<close>: an object without \<open>get_shape\<close> gives AttributeError, a
  shape with fewer than two dimensions IndexError, an unknown dimension TypeError.\<close>

definition int_shape_1 :: "pyval \<Rightarrow> error + nat" where
  "int_shape_1 x =
     (case x of
        Tensor t \<Rightarrow>
          (case get_shape t of
             _ # d # _ \<Rightarrow> (case d of Some m \<Rightarrow> Inr m | None \<Rightarrow> Inl TypeError)
           | _ \<Rightarrow> Inl IndexError)
      | _ \<Rightarrow> Inl AttributeError)"

text \<open>The name the framework gives a new variable depends on the variables created so
  far and on the name asked for; the scheme is the framework's, so it is a parameter.\<close>

type_synonym namer = "variable list \<Rightarrow> string option \<Rightarrow> string"

section \<open>Objects and the store\<close>

text \<open>
  A Builder object has two attributes: \<open>tensor\<close>, and \<open>variables\<close>, a reference to a
  dictionary object. Dictionaries are mutable and can be shared between Builders, so
  they live in a store of their own. Dictionary 0 is the default argument
  \<open>variables={}\<close> of \<open>Builder.__init__\<close>, created once when the class is defined.
\<close>

record Builder =
  tensor :: pyval
  variables :: nat

record state =
  objs :: "nat \<Rightarrow> Builder"
  n_objs :: nat
  dicts :: "nat \<Rightarrow> (string \<rightharpoonup> variable)"
  n_dicts :: nat
  graph :: "variable list"

type_synonym 'a res = "(error + 'a) \<times> state"

text \<open>
  A function the caller supplies, applied to a value together with a \<open>name\<close>. It is the
  caller's code: it runs on the store, which it can read and write through whatever its
  closure holds, and it returns a value or raises.
\<close>

type_synonym activation = "state \<Rightarrow> pyval \<Rightarrow> string option \<Rightarrow> pyval res"

definition default_variables :: nat where
  "default_variables = 0"

definition init_state :: state where
  "init_state = \<lparr> objs = (\<lambda>_. \<lparr> tensor = PyNone, variables = 0 \<rparr>), n_objs = 0,
                  dicts = (\<lambda>_. Map.empty), n_dicts = 1, graph = [] \<rparr>"

definition new_dict :: "state \<Rightarrow> (string \<rightharpoonup> variable) \<Rightarrow> nat \<times> state" where
  "new_dict s m =
     (n_dicts s, s\<lparr> dicts := (dicts s)(n_dicts s := m), n_dicts := Suc (n_dicts s) \<rparr>)"

text \<open>\<open>Builder.__init__(tensor, variables)\<close>\<close>

definition new_Builder :: "state \<Rightarrow> pyval \<Rightarrow> nat \<Rightarrow> nat \<times> state" where
  "new_Builder s t d =
     (n_objs s,
      s\<lparr> objs := (objs s)(n_objs s := \<lparr> tensor = t, variables = d \<rparr>),
         n_objs := Suc (n_objs s) \<rparr>)"

definition set_tensor :: "state \<Rightarrow> nat \<Rightarrow> pyval \<Rightarrow> state" where
  "set_tensor s b t = s\<lparr> objs := (objs s)(b := (objs s b)\<lparr> tensor := t \<rparr>) \<rparr>"

text \<open>\<open>builder.variables[k] = v\<close>\<close>

definition set_item :: "state \<Rightarrow> nat \<Rightarrow> string \<Rightarrow> variable \<Rightarrow> state" where
  "set_item s b k v =
     (let d = variables (objs s b) in s\<lparr> dicts := (dicts s)(d := (dicts s d)(k \<mapsto> v)) \<rparr>)"

text \<open>The mapping a Builder currently shows.\<close>

definition vars_of :: "state \<Rightarrow> nat \<Rightarrow> (string \<rightharpoonup> variable)" where
  "vars_of s b = dicts s (variables (objs s b))"

definition tensor_of :: "state \<Rightarrow> nat \<Rightarrow> pyval" where
  "tensor_of s b = tensor (objs s b)"

text \<open>\<open>tf.Variable(tf.random_uniform(shape, -1.0, 1.0), name=name)\<close>\<close>

definition tf_Variable :: "namer \<Rightarrow> state \<Rightarrow> nat list \<Rightarrow> string option \<Rightarrow> variable \<times> state" where
  "tf_Variable nm s sh name =
     (let w = Variable (length (graph s)) sh (nm (graph s) name)
      in (w, s\<lparr> graph := graph s @ [w] \<rparr>))"

text \<open>\<open>given if given else generated\<close>: Python takes \<open>None\<close> and the empty string
  for false.\<close>

fun if_else :: "string option \<Rightarrow> string \<Rightarrow> string" where
  "if_else None generated = generated"
| "if_else (Some given) generated = (if given \<noteq> [] then given else generated)"

section \<open>Builder\<close>

definition copy :: "state \<Rightarrow> nat \<Rightarrow> nat \<times> state" where
  "copy s b =
     (let (d, s1) = new_dict s (dicts s (variables (objs s b)))
      in new_Builder s1 (tensor (objs s b)) d)"

text \<open>The decorator: the decorated function runs on a copy of the receiver.\<close>

definition immutable :: "(state \<Rightarrow> nat \<Rightarrow> 'a) \<Rightarrow> state \<Rightarrow> nat \<Rightarrow> 'a" where
  "immutable meth s self = (let (c, s1) = copy s self in meth s1 c)"

definition connect_weights_body ::
  "namer \<Rightarrow> nat \<Rightarrow> string option \<Rightarrow> string option \<Rightarrow> state \<Rightarrow> nat \<Rightarrow> nat res" where
  "connect_weights_body nm sz name weights_name s builder =
     (case int_shape_1 (tensor (objs s builder)) of
        Inl e \<Rightarrow> (Inl e, s)
      | Inr m \<Rightarrow>
          (let (w, s1) = tf_Variable nm s [m, sz] weights_name;
               key = if_else weights_name (var_name w);
               s2 = set_item s1 builder key w
           in case tensor (objs s2 builder) of
                Tensor x \<Rightarrow>
                  (case tf_matmul x (Var w) name of
                     Inl e \<Rightarrow> (Inl e, s2)
                   | Inr y \<Rightarrow> (Inr builder, set_tensor s2 builder (Tensor y)))
              | _ \<Rightarrow> (Inl TypeError, s2)))"

definition connect_weights ::
  "namer \<Rightarrow> nat \<Rightarrow> string option \<Rightarrow> string option \<Rightarrow> state \<Rightarrow> nat \<Rightarrow> nat res" where
  "connect_weights nm sz name weights_name =
     immutable (connect_weights_body nm sz name weights_name)"

definition connect_bias_body ::
  "namer \<Rightarrow> string option \<Rightarrow> string option \<Rightarrow> state \<Rightarrow> nat \<Rightarrow> nat res" where
  "connect_bias_body nm name bias_name s builder =
     (case int_shape_1 (tensor (objs s builder)) of
        Inl e \<Rightarrow> (Inl e, s)
      | Inr m \<Rightarrow>
          (let (b, s1) = tf_Variable nm s [m] bias_name;
               key = if_else bias_name (var_name b);
               s2 = set_item s1 builder key b
           in case tensor (objs s2 builder) of
                Tensor x \<Rightarrow>
                  (case tf_add x (Var b) name of
                     Inl e \<Rightarrow> (Inl e, s2)
                   | Inr y \<Rightarrow> (Inr builder, set_tensor s2 builder (Tensor y)))
              | _ \<Rightarrow> (Inl TypeError, s2)))"

definition connect_bias ::
  "namer \<Rightarrow> string option \<Rightarrow> string option \<Rightarrow> state \<Rightarrow> nat \<Rightarrow> nat res" where
  "connect_bias nm name bias_name = immutable (connect_bias_body nm name bias_name)"

text \<open>\<open>if fn: builder.tensor = fn(builder.tensor, name=name)\<close>, shared by both
  \<open>connect_layer\<close> methods.\<close>

definition apply_fn :: "activation option \<Rightarrow> string option \<Rightarrow> state \<Rightarrow> nat \<Rightarrow> nat res" where
  "apply_fn fn name s builder =
     (case fn of
        None \<Rightarrow> (Inr builder, s)
      | Some f \<Rightarrow>
          (case f s (tensor (objs s builder)) name of
             (Inl e, s1) \<Rightarrow> (Inl e, s1)
           | (Inr y, s1) \<Rightarrow> (Inr builder, set_tensor s1 builder y)))"

definition connect_layer_body ::
  "namer \<Rightarrow> nat \<Rightarrow> activation option \<Rightarrow> string option \<Rightarrow> string option \<Rightarrow> bool \<Rightarrow>
   string option \<Rightarrow> state \<Rightarrow> nat \<Rightarrow> nat res" where
  "connect_layer_body nm sz fn name weights_name bias bias_name s builder =
     (case connect_weights nm sz None weights_name s builder of
        (Inl e, s1) \<Rightarrow> (Inl e, s1)
      | (Inr b1, s1) \<Rightarrow>
          (case (if bias then connect_bias nm None bias_name s1 b1 else (Inr b1, s1)) of
             (Inl e, s2) \<Rightarrow> (Inl e, s2)
           | (Inr b2, s2) \<Rightarrow> apply_fn fn name s2 b2))"

definition connect_layer ::
  "namer \<Rightarrow> nat \<Rightarrow> activation option \<Rightarrow> string option \<Rightarrow> string option \<Rightarrow> bool \<Rightarrow>
   string option \<Rightarrow> state \<Rightarrow> nat \<Rightarrow> nat res" where
  "connect_layer nm sz fn name weights_name bias bias_name =
     immutable (connect_layer_body nm sz fn name weights_name bias bias_name)"

text \<open>
  \<open>map\<close>: \<open>builder.tensor = fn(builder.tensor, *args, **kwargs)\<close>. The extra arguments are
  part of the closure \<open>fn\<close>, which is the caller's code as an activation is; it is handed
  the value, not the Builder.
\<close>

definition map_body :: "(state \<Rightarrow> pyval \<Rightarrow> pyval res) \<Rightarrow> state \<Rightarrow> nat \<Rightarrow> nat res" where
  "map_body fn s builder =
     (case fn s (tensor (objs s builder)) of
        (Inl e, s1) \<Rightarrow> (Inl e, s1)
      | (Inr y, s1) \<Rightarrow> (Inr builder, set_tensor s1 builder y))"

definition map' :: "(state \<Rightarrow> pyval \<Rightarrow> pyval res) \<Rightarrow> state \<Rightarrow> nat \<Rightarrow> nat res" where
  "map' fn = immutable (map_body fn)"

text \<open>\<open>then\<close>: the callback is arbitrary code; it gets the store and the copy.\<close>

definition then' :: "(state \<Rightarrow> nat \<Rightarrow> nat res) \<Rightarrow> state \<Rightarrow> nat \<Rightarrow> nat res" where
  "then' fn = immutable (\<lambda>s builder. fn s builder)"

text \<open>An element of a tree's \<open>branches\<close> list is a Builder or a BuilderTree.\<close>

datatype elem = Leaf nat | BuilderTree "elem list"

definition branch :: "(state \<Rightarrow> nat \<Rightarrow> (elem list) res) \<Rightarrow> state \<Rightarrow> nat \<Rightarrow> elem res" where
  "branch fn =
     immutable (\<lambda>s builder.
       case fn s builder of
         (Inl e, s1) \<Rightarrow> (Inl e, s1)
       | (Inr branches, s1) \<Rightarrow> (Inr (BuilderTree branches), s1))"

section \<open>BuilderTree\<close>

text \<open>
  A BuilderTree object holds only its \<open>branches\<close> list, and no method writes to a tree
  or to a list: trees are values here, and \<open>BuilderTree.copy\<close> (which the decorator
  calls, and which copies the list) is the identity on them.

  \<open>_leafs\<close> is a generator. \<open>Builder._leafs\<close> yields a copy of the receiver;
  \<open>BuilderTree._leafs\<close> walks the branches in order and yields what each branch's
  \<open>_leafs\<close> yields. The code that consumes a yielded Builder runs before the next one
  is produced; \<open>iter_leafs body\<close> is the loop \<open>[body(b) for b in x._leafs()]\<close>.
\<close>

fun iter_leafs :: "(state \<Rightarrow> nat \<Rightarrow> 'a res) \<Rightarrow> state \<Rightarrow> elem \<Rightarrow> ('a list) res"
  and iter_branches :: "(state \<Rightarrow> nat \<Rightarrow> 'a res) \<Rightarrow> state \<Rightarrow> elem list \<Rightarrow> ('a list) res"
where
  "iter_leafs body s (Leaf b) =
     (let (c, s1) = copy s b
      in case body s1 c of
           (Inl e, s2) \<Rightarrow> (Inl e, s2)
         | (Inr x, s2) \<Rightarrow> (Inr [x], s2))"
| "iter_leafs body s (BuilderTree branches) = iter_branches body s branches"
| "iter_branches body s [] = (Inr [], s)"
| "iter_branches body s (br # rest) =
     (case iter_leafs body s br of
        (Inl e, s1) \<Rightarrow> (Inl e, s1)
      | (Inr xs, s1) \<Rightarrow>
          (case iter_branches body s1 rest of
             (Inl e, s2) \<Rightarrow> (Inl e, s2)
           | (Inr ys, s2) \<Rightarrow> (Inr (xs @ ys), s2)))"

definition leafs :: "state \<Rightarrow> elem \<Rightarrow> (nat list) res" where
  "leafs = iter_leafs (\<lambda>s builder. (Inr builder, s))"

definition builders :: "state \<Rightarrow> elem list \<Rightarrow> (nat list) res" where
  "builders s branches = leafs s (BuilderTree branches)"

definition tensors :: "state \<Rightarrow> elem list \<Rightarrow> (pyval list) res" where
  "tensors s branches =
     iter_leafs (\<lambda>s builder. (Inr (tensor (objs s builder)), s)) s (BuilderTree branches)"

text \<open>\<open>tensor += other\<close> on the running sum of \<open>_add_builders\<close>: the framework's \<open>add\<close>
  when both are tensors; anything else cannot be added.\<close>

fun py_add :: "pyval \<Rightarrow> pyval \<Rightarrow> error + pyval" where
  "py_add (Tensor x) (Tensor y) =
     (case tf_add x y None of Inl e \<Rightarrow> Inl e | Inr z \<Rightarrow> Inr (Tensor z))"
| "py_add (Tensor x) _ = Inl ValueError"
| "py_add _ _ = Inl TypeError"

text \<open>\<open>variables.update(other)\<close> on dictionary \<open>d\<close>\<close>

definition dict_update :: "state \<Rightarrow> nat \<Rightarrow> (string \<rightharpoonup> variable) \<Rightarrow> state" where
  "dict_update s d other = s\<lparr> dicts := (dicts s)(d := dicts s d ++ other) \<rparr>"

fun add_loop :: "state \<Rightarrow> nat \<Rightarrow> pyval \<Rightarrow> nat list \<Rightarrow> pyval res" where
  "add_loop s d t [] = (Inr t, s)"
| "add_loop s d t (b # bs) =
     (case (if t = PyNone then Inr (tensor (objs s b)) else py_add t (tensor (objs s b))) of
        Inl e \<Rightarrow> (Inl e, s)
      | Inr t' \<Rightarrow> add_loop (dict_update s d (dicts s (variables (objs s b)))) d t' bs)"

definition add_builders :: "state \<Rightarrow> nat list \<Rightarrow> nat res" where
  "add_builders s bs =
     (let (d, s1) = new_dict s Map.empty
      in case add_loop s1 d PyNone bs of
           (Inl e, s2) \<Rightarrow> (Inl e, s2)
         | (Inr t, s2) \<Rightarrow> (let (b, s3) = new_Builder s2 t d in (Inr b, s3)))"

text \<open>\<open>BuilderTree.connect_layer\<close>; each leaf gets \<open>connect_weights(size)\<close>, with no
  names.\<close>

definition tree_connect_layer ::
  "namer \<Rightarrow> nat \<Rightarrow> activation option \<Rightarrow> string option \<Rightarrow> bool \<Rightarrow> string option \<Rightarrow>
   state \<Rightarrow> elem list \<Rightarrow> nat res" where
  "tree_connect_layer nm sz fn name bias bias_name s branches =
     (case iter_leafs (connect_weights nm sz None None) s (BuilderTree branches) of
        (Inl e, s1) \<Rightarrow> (Inl e, s1)
      | (Inr bs, s1) \<Rightarrow>
          (case add_builders s1 bs of
             (Inl e, s2) \<Rightarrow> (Inl e, s2)
           | (Inr b, s2) \<Rightarrow>
               (case (if bias then connect_bias nm None bias_name s2 b else (Inr b, s2)) of
                  (Inl e, s3) \<Rightarrow> (Inl e, s3)
                | (Inr b2, s3) \<Rightarrow> apply_fn fn name s3 b2)))"

section \<open>Module functions\<close>

text \<open>\<open>builder(tensor)\<close> is \<open>Builder(tensor)\<close>: the \<open>variables\<close> attribute is the shared
  default dictionary.\<close>

definition builder :: "state \<Rightarrow> pyval \<Rightarrow> nat \<times> state" where
  "builder s t = new_Builder s t default_variables"

definition branches :: "elem list \<Rightarrow> elem" where
  "branches builder_list = BuilderTree builder_list"

section \<open>The leaves of a tree\<close>

text \<open>The Builders of a tree element, depth first and left to right.\<close>

fun dfs :: "elem \<Rightarrow> nat list" where
  "dfs (Leaf b) = [b]"
| "dfs (BuilderTree bs) = concat (map dfs bs)"

section \<open>The same layer, call by call\<close>

text \<open>
  What the description of \<open>connect_layer\<close> says it equals: \<open>connect_weights\<close> called on
  the receiver, then \<open>connect_bias\<close> on the result when a bias is asked for, then, when
  an activation is given, \<open>map\<close> with that activation and the name.
\<close>

definition connect_layer_composed ::
  "namer \<Rightarrow> nat \<Rightarrow> activation option \<Rightarrow> string option \<Rightarrow> string option \<Rightarrow> bool \<Rightarrow>
   string option \<Rightarrow> state \<Rightarrow> nat \<Rightarrow> nat res" where
  "connect_layer_composed nm sz fn name weights_name bias bias_name s b =
     (case connect_weights nm sz None weights_name s b of
        (Inl e, s1) \<Rightarrow> (Inl e, s1)
      | (Inr b1, s1) \<Rightarrow>
          (case (if bias then connect_bias nm None bias_name s1 b1 else (Inr b1, s1)) of
             (Inl e, s2) \<Rightarrow> (Inl e, s2)
           | (Inr b2, s2) \<Rightarrow>
               (case fn of
                  None \<Rightarrow> (Inr b2, s2)
                | Some f \<Rightarrow> map' (\<lambda>s t. f s t name) s2 b2)))"

section \<open>Public calls\<close>

text \<open>One call of a public method on a Builder, with its arguments, and what it returns.\<close>

datatype call =
    ConnectWeights nat "string option" "string option"
  | ConnectBias "string option" "string option"
  | ConnectLayer nat "activation option" "string option" "string option" bool "string option"
  | Map "state \<Rightarrow> pyval \<Rightarrow> pyval res"
  | Then "state \<Rightarrow> nat \<Rightarrow> nat res"
  | Branch "state \<Rightarrow> nat \<Rightarrow> (elem list) res"
  | Leafs

datatype returned = Node nat | Tree elem | Nodes "nat list" | Values "pyval list"

definition returning :: "('a \<Rightarrow> returned) \<Rightarrow> 'a res \<Rightarrow> returned res" where
  "returning f r = (case r of (Inl e, s) \<Rightarrow> (Inl e, s) | (Inr x, s) \<Rightarrow> (Inr (f x), s))"

fun call_on :: "namer \<Rightarrow> call \<Rightarrow> state \<Rightarrow> nat \<Rightarrow> returned res" where
  "call_on nm (ConnectWeights sz name weights_name) s b =
     returning Node (connect_weights nm sz name weights_name s b)"
| "call_on nm (ConnectBias name bias_name) s b =
     returning Node (connect_bias nm name bias_name s b)"
| "call_on nm (ConnectLayer sz fn name weights_name bias bias_name) s b =
     returning Node (connect_layer nm sz fn name weights_name bias bias_name s b)"
| "call_on nm (Map fn) s b = returning Node (map' fn s b)"
| "call_on nm (Then fn) s b = returning Node (then' fn s b)"
| "call_on nm (Branch fn) s b = returning Tree (branch fn s b)"
| "call_on nm Leafs s b = returning Nodes (leafs s (Leaf b))"

text \<open>A step of a caller's program: a call on a Builder, or a method of a tree.\<close>

datatype step =
    On nat call
  | TreeConnectLayer "elem list" nat "activation option" "string option" bool "string option"
  | Builders "elem list"
  | Tensors "elem list"

fun run_step :: "namer \<Rightarrow> step \<Rightarrow> state \<Rightarrow> returned res" where
  "run_step nm (On b c) s = call_on nm c s b"
| "run_step nm (TreeConnectLayer brs sz fn name bias bias_name) s =
     returning Node (tree_connect_layer nm sz fn name bias bias_name s brs)"
| "run_step nm (Builders brs) s = returning Nodes (builders s brs)"
| "run_step nm (Tensors brs) s = returning Values (tensors s brs)"

text \<open>A program runs its steps in order; a step that raises leaves the store as it is
  at that point, and the caller may go on.\<close>

fun run :: "namer \<Rightarrow> step list \<Rightarrow> state \<Rightarrow> state" where
  "run nm [] s = s"
| "run nm (st # sts) s = run nm sts (snd (run_step nm st s))"

section \<open>What a call may write\<close>

text \<open>\<open>frame s s'\<close>: every object and dictionary of \<open>s\<close> is still there, unchanged, in
  \<open>s'\<close>. \<open>touches s c s'\<close>: the same, except for the Builder \<open>c\<close> and its dictionary.\<close>

definition frame :: "state \<Rightarrow> state \<Rightarrow> bool" where
  "frame s s' =
     (n_objs s \<le> n_objs s' \<and> n_dicts s \<le> n_dicts s'
      \<and> (\<forall>b<n_objs s. objs s' b = objs s b) \<and> (\<forall>d<n_dicts s. dicts s' d = dicts s d))"

definition touches :: "state \<Rightarrow> nat \<Rightarrow> state \<Rightarrow> bool" where
  "touches s c s' =
     (n_objs s \<le> n_objs s' \<and> n_dicts s \<le> n_dicts s'
      \<and> (\<forall>b<n_objs s. b \<noteq> c \<longrightarrow> objs s' b = objs s b)
      \<and> (\<forall>d<n_dicts s. d \<noteq> variables (objs s c) \<longrightarrow> dicts s' d = dicts s d))"

text \<open>A callback of \<open>then\<close> or \<open>branch\<close> is confined when it writes only to the Builder it
  is given, to that Builder's dictionary and to objects it creates.\<close>

definition confined :: "(state \<Rightarrow> nat \<Rightarrow> 'a res) \<Rightarrow> bool" where
  "confined fn = (\<forall>s c. touches s c (snd (fn s c)))"

text \<open>A function applied to a value (the \<open>fn\<close> of \<open>map\<close>, an activation) is given no
  Builder: it is confined when it writes only to objects it creates.\<close>

definition confined_fn :: "(state \<Rightarrow> pyval \<Rightarrow> pyval res) \<Rightarrow> bool" where
  "confined_fn fn = (\<forall>s v. frame s (snd (fn s v)))"

fun fn_ok :: "activation option \<Rightarrow> string option \<Rightarrow> bool" where
  "fn_ok None name = True"
| "fn_ok (Some f) name = confined_fn (\<lambda>s v. f s v name)"

text \<open>A callback of \<open>then\<close> returns its own when the Builder it returns is the one it was
  given or one created during the call.\<close>

definition returns_own :: "(state \<Rightarrow> nat \<Rightarrow> nat res) \<Rightarrow> bool" where
  "returns_own fn = (\<forall>s c r s'. fn s c = (Inr r, s') \<longrightarrow> r = c \<or> n_objs s \<le> r)"

text \<open>The functions passed with a call, or with a step, are confined.\<close>

fun call_ok :: "call \<Rightarrow> bool" where
  "call_ok (ConnectLayer sz fn name weights_name bias bias_name) = fn_ok fn name"
| "call_ok (Map fn) = confined_fn fn"
| "call_ok (Then fn) = confined fn"
| "call_ok (Branch fn) = confined fn"
| "call_ok _ = True"

fun step_ok :: "step \<Rightarrow> bool" where
  "step_ok (On b c) = call_ok c"
| "step_ok (TreeConnectLayer brs sz fn name bias bias_name) = fn_ok fn name"
| "step_ok _ = True"

text \<open>The callback of a \<open>then\<close> call returns its own; the other calls have no such
  callback.\<close>

fun call_returns_own :: "call \<Rightarrow> bool" where
  "call_returns_own (Then fn) = returns_own fn"
| "call_returns_own _ = True"

text \<open>A Builder of the store, with its dictionary.\<close>

definition allocated :: "state \<Rightarrow> nat \<Rightarrow> bool" where
  "allocated s b = (b < n_objs s \<and> variables (objs s b) < n_dicts s)"

section \<open>The value-level reading\<close>

text \<open>What a Builder shows: its value and its mapping.\<close>

type_synonym content = "pyval \<times> (string \<rightharpoonup> variable)"

definition content :: "state \<Rightarrow> nat \<Rightarrow> content" where
  "content s b = (tensor_of s b, vars_of s b)"

text \<open>What a call shows: the error or the content of the Builder returned, and the
  variables of the graph.\<close>

definition observe :: "nat res \<Rightarrow> (error + content) \<times> variable list" where
  "observe r = (case r of (Inl e, s) \<Rightarrow> (Inl e, graph s) | (Inr b, s) \<Rightarrow> (Inr (content s b), graph s))"

text \<open>
  An activation made of the framework's operations computes on the value and the name;
  it can read the graph and add variables to it, and it touches no Builder and no
  dictionary. \<open>framework_fn g\<close> is the activation that acts on the graph as \<open>g\<close> does, and
  \<open>of_value p\<close> the one that computes \<open>p\<close> and leaves the graph as it is.
\<close>

type_synonym graph_fn =
  "variable list \<Rightarrow> pyval \<Rightarrow> string option \<Rightarrow> (error + pyval) \<times> variable list"

definition framework_fn :: "graph_fn \<Rightarrow> activation" where
  "framework_fn g s v name = (case g (graph s) v name of (r, g') \<Rightarrow> (r, s\<lparr> graph := g' \<rparr>))"

definition on_value :: "(pyval \<Rightarrow> string option \<Rightarrow> error + pyval) \<Rightarrow> graph_fn" where
  "on_value p g v name = (p v name, g)"

definition of_value :: "(pyval \<Rightarrow> string option \<Rightarrow> error + pyval) \<Rightarrow> activation" where
  "of_value p = framework_fn (on_value p)"

text \<open>The methods read on contents: what \<open>connect_weights\<close>, \<open>connect_bias\<close> and
  \<open>connect_layer\<close> show, as functions of what the receiver shows and of the graph.\<close>

definition weights_on ::
  "namer \<Rightarrow> nat \<Rightarrow> string option \<Rightarrow> string option \<Rightarrow> variable list \<Rightarrow> content
   \<Rightarrow> (error + content) \<times> variable list" where
  "weights_on nm sz name weights_name g c =
     (case int_shape_1 (fst c) of
        Inl e \<Rightarrow> (Inl e, g)
      | Inr m \<Rightarrow>
          (let w = Variable (length g) [m, sz] (nm g weights_name)
           in case fst c of
                Tensor x \<Rightarrow>
                  (case tf_matmul x (Var w) name of
                     Inl e \<Rightarrow> (Inl e, g @ [w])
                   | Inr y \<Rightarrow>
                       (Inr (Tensor y, (snd c)(if_else weights_name (var_name w) \<mapsto> w)),
                        g @ [w]))
              | _ \<Rightarrow> (Inl TypeError, g @ [w])))"

definition bias_on ::
  "namer \<Rightarrow> string option \<Rightarrow> string option \<Rightarrow> variable list \<Rightarrow> content
   \<Rightarrow> (error + content) \<times> variable list" where
  "bias_on nm name bias_name g c =
     (case int_shape_1 (fst c) of
        Inl e \<Rightarrow> (Inl e, g)
      | Inr m \<Rightarrow>
          (let b = Variable (length g) [m] (nm g bias_name)
           in case fst c of
                Tensor x \<Rightarrow>
                  (case tf_add x (Var b) name of
                     Inl e \<Rightarrow> (Inl e, g @ [b])
                   | Inr y \<Rightarrow>
                       (Inr (Tensor y, (snd c)(if_else bias_name (var_name b) \<mapsto> b)),
                        g @ [b]))
              | _ \<Rightarrow> (Inl TypeError, g @ [b])))"

definition fn_on ::
  "graph_fn option \<Rightarrow> string option \<Rightarrow> variable list \<Rightarrow> content
   \<Rightarrow> (error + content) \<times> variable list" where
  "fn_on fn name g c =
     (case fn of
        None \<Rightarrow> (Inr c, g)
      | Some f \<Rightarrow>
          (case f g (fst c) name of
             (Inl e, g') \<Rightarrow> (Inl e, g')
           | (Inr y, g') \<Rightarrow> (Inr (y, snd c), g')))"

definition layer_on ::
  "namer \<Rightarrow> nat \<Rightarrow> graph_fn option \<Rightarrow> string option \<Rightarrow> string option \<Rightarrow> bool \<Rightarrow>
   string option \<Rightarrow> variable list \<Rightarrow> content \<Rightarrow> (error + content) \<times> variable list" where
  "layer_on nm sz fn name weights_name bias bias_name g c =
     (case weights_on nm sz None weights_name g c of
        (Inl e, g1) \<Rightarrow> (Inl e, g1)
      | (Inr c1, g1) \<Rightarrow>
          (case (if bias then bias_on nm None bias_name g1 c1 else (Inr c1, g1)) of
             (Inl e, g2) \<Rightarrow> (Inl e, g2)
           | (Inr c2, g2) \<Rightarrow> fn_on fn name g2 c2))"

text \<open>The fan-in, read on values. \<open>width x\<close> is \<open>int(x.get_shape()[1])\<close> for a 2-D
  tensor; \<open>leaf_weights\<close> are the variables that \<open>connect_weights(size)\<close> creates for the
  leaves, in leaf order, each named by the framework after those before it; \<open>sum_tensors\<close>
  adds the tensors to a running sum, left to right, with the framework's \<open>add\<close>.\<close>

definition width :: "tensor \<Rightarrow> nat" where
  "width x = (case get_shape x of [_, Some n] \<Rightarrow> n | _ \<Rightarrow> 0)"

fun leaf_weights :: "namer \<Rightarrow> nat \<Rightarrow> variable list \<Rightarrow> tensor list \<Rightarrow> variable list" where
  "leaf_weights nm sz g [] = []"
| "leaf_weights nm sz g (x # xs) =
     (let w = Variable (length g) [width x, sz] (nm g None)
      in w # leaf_weights nm sz (g @ [w]) xs)"

fun sum_tensors :: "tensor \<Rightarrow> tensor list \<Rightarrow> error + tensor" where
  "sum_tensors acc [] = Inr acc"
| "sum_tensors acc (y # ys) =
     (case tf_add acc y None of Inl e \<Rightarrow> Inl e | Inr z \<Rightarrow> sum_tensors z ys)"

text \<open>A content whose value is a tensor of shape \<open>[m, n]\<close>, \<open>n\<close> known.\<close>

definition two_d :: "content \<Rightarrow> bool" where
  "two_d c = (\<exists>x m n. fst c = Tensor x \<and> get_shape x = [m, Some n])"

text \<open>What \<open>connect_weights(size)\<close> shows for one leaf (it does not raise on a 2-D
  value).\<close>

definition leaf_step :: "namer \<Rightarrow> nat \<Rightarrow> variable list \<Rightarrow> content \<Rightarrow> content \<times> variable list" where
  "leaf_step nm sz g c =
     (case weights_on nm sz None None g c of (Inr c', g') \<Rightarrow> (c', g') | (Inl e, g') \<Rightarrow> (c, g'))"

text \<open>The running sum of \<open>_add_builders\<close>, read on the values of the Builders: it starts
  from \<open>None\<close>, takes the first value as it is and adds the others.\<close>

fun py_sum :: "pyval \<Rightarrow> pyval list \<Rightarrow> error + pyval" where
  "py_sum t [] = Inr t"
| "py_sum t (v # vs) =
     (case (if t = PyNone then Inr v else py_add t v) of Inl e \<Rightarrow> Inl e | Inr t' \<Rightarrow> py_sum t' vs)"

text \<open>Threading the graph through a list, left to right.\<close>

fun thread :: "(variable list \<Rightarrow> 'a \<Rightarrow> 'b \<times> variable list) \<Rightarrow> variable list \<Rightarrow> 'a list
    \<Rightarrow> 'b list \<times> variable list" where
  "thread F g [] = ([], g)"
| "thread F g (c # cs) =
     (let (c', g1) = F g c; (cs', g2) = thread F g1 cs in (c' # cs', g2))"

section \<open>Inputs for the examples\<close>

text \<open>A naming scheme to run the examples with: the name asked for, else \<open>Variable\<close>
  followed by one stroke for each variable of the graph.\<close>

definition example_namer :: namer where
  "example_namer g name =
     (case name of None \<Rightarrow> ''Variable_'' @ replicate (length g) CHR ''I'' | Some n \<Rightarrow> n)"

text \<open>An activation to run the examples with.\<close>

definition softmax_op :: "pyval \<Rightarrow> string option \<Rightarrow> error + pyval" where
  "softmax_op v name =
     (case v of
        Tensor x \<Rightarrow> Inr (Tensor (Op ''softmax'' [x] (get_shape x) name))
      | _ \<Rightarrow> Inl TypeError)"

definition softmax :: activation where
  "softmax = of_value softmax_op"

definition x_5 :: tensor where
  "x_5 = Placeholder [None, Some 5] ''x''"

definition x_8 :: tensor where
  "x_8 = Placeholder [None, Some 8] ''a''"

definition x_vec :: tensor where
  "x_vec = Placeholder [Some 5] ''v''"

definition x_233 :: tensor where
  "x_233 = Placeholder [Some 2, Some 3, Some 3] ''x''"

definition x_234 :: tensor where
  "x_234 = Placeholder [Some 2, Some 3, Some 4] ''x''"

definition x_2_5 :: tensor where
  "x_2_5 = Placeholder [Some 2, Some 5] ''a''"

definition x_3_8 :: tensor where
  "x_3_8 = Placeholder [Some 3, Some 8] ''b''"

text \<open>The store after \<open>builder(t)\<close> in a fresh interpreter; the Builder is object 0.\<close>

definition one_builder :: "tensor \<Rightarrow> state" where
  "one_builder t = snd (builder init_state (Tensor t))"

text \<open>The store after \<open>a = builder(x_8); b = builder(x_5); c = builder(x_vec)\<close>: objects
  0, 1 and 2.\<close>

definition three_builders :: state where
  "three_builders =
     snd (builder (snd (builder (snd (builder init_state (Tensor x_8))) (Tensor x_5)))
            (Tensor x_vec))"

text \<open>The store after \<open>b1 = builder(x_8); b2 = builder(x_5)\<close>: objects 0 and 1.\<close>

definition two_builders :: state where
  "two_builders = snd (builder (snd (builder init_state (Tensor x_8))) (Tensor x_5))"

text \<open>The store after \<open>a = builder(x_2_5); b = builder(x_3_8)\<close>: two 2-D values with
  different numbers of rows.\<close>

definition uneven_builders :: state where
  "uneven_builders = snd (builder (snd (builder init_state (Tensor x_2_5))) (Tensor x_3_8))"

definition k_var :: variable where
  "k_var = Variable 0 [1] ''k''"

text \<open>A callback as in the example of \<open>then\<close>: it writes into the mapping of the Builder
  it is given and returns that Builder.\<close>

definition own_write :: "state \<Rightarrow> nat \<Rightarrow> nat res" where
  "own_write s b = (Inr b, set_item s b ''k'' k_var)"

text \<open>A callback whose closure holds Builder 0: it writes into that Builder's mapping
  and returns it, ignoring its argument (\<open>lambda b: (b0.variables.update(k=v), b0)[1]\<close>).\<close>

definition captured_write :: "state \<Rightarrow> nat \<Rightarrow> nat res" where
  "captured_write s b = (Inr 0, set_item s 0 ''k'' k_var)"

text \<open>A function for \<open>map\<close> whose closure holds Builder 0: it writes into that Builder's
  mapping and returns the value unchanged (\<open>lambda t: (b0.variables.update(k=v), t)[1]\<close>).\<close>

definition captured_map :: "state \<Rightarrow> pyval \<Rightarrow> pyval res" where
  "captured_map s t = (Inr t, set_item s 0 ''k'' k_var)"

text \<open>The variables and products of \<open>branches([a, b]).connect_layer(3)\<close> with \<open>a\<close> of
  width 8 and \<open>b\<close> of width 5, the variables named by \<open>example_namer\<close>.\<close>

definition w_a :: variable where
  "w_a = Variable 0 [8, 3] ''Variable_''"

definition w_b :: variable where
  "w_b = Variable 1 [5, 3] ''Variable_I''"

definition bias_ab :: variable where
  "bias_ab = Variable 2 [3] ''Variable_II''"

definition y_a :: tensor where
  "y_a = MatMul x_8 (Var w_a) None"

definition y_b :: tensor where
  "y_b = MatMul x_5 (Var w_b) None"

section \<open>Basic facts\<close>

lemma copy_eq:
  "copy s b =
     (n_objs s,
      s\<lparr> objs := (objs s)(n_objs s := \<lparr> tensor = tensor (objs s b), variables = n_dicts s \<rparr>),
         n_objs := Suc (n_objs s),
         dicts := (dicts s)(n_dicts s := dicts s (variables (objs s b))),
         n_dicts := Suc (n_dicts s) \<rparr>)"
  by (simp add: copy_def new_dict_def new_Builder_def)

lemma one_builder_eq:
  "one_builder t =
     init_state\<lparr> objs := (objs init_state)(0 := \<lparr> tensor = Tensor t, variables = 0 \<rparr>),
                 n_objs := Suc 0 \<rparr>"
  by (simp add: one_builder_def builder_def new_Builder_def default_variables_def init_state_def)

lemma int_shape_1_2d: "get_shape x = r # Some n # rest \<Longrightarrow> int_shape_1 (Tensor x) = Inr n"
  by (simp add: int_shape_1_def)

lemma int_shape_1_Inl:
  "int_shape_1 v = Inl e \<Longrightarrow> e = AttributeError \<or> e = IndexError \<or> e = TypeError"
  by (auto simp: int_shape_1_def split: pyval.splits list.splits option.splits)

lemma int_shape_1_Inr:
  "int_shape_1 v = Inr k \<Longrightarrow> \<exists>x m rest. v = Tensor x \<and> get_shape x = m # Some k # rest"
  by (auto simp: int_shape_1_def split: pyval.splits list.splits option.splits)

lemma tf_matmul_2d:
  "get_shape x = [r, Some n] \<Longrightarrow>
   tf_matmul x (Var (Variable i [n, k] nme)) name = Inr (MatMul x (Var (Variable i [n, k] nme)) name)"
  by (simp add: tf_matmul_def dim_compatible_def)

lemma connect_weights_raises:
  "int_shape_1 (tensor (objs s b)) = Inl e \<Longrightarrow>
   connect_weights nm sz name wn s b = (Inl e, snd (copy s b))"
  by (simp add: connect_weights_def immutable_def copy_eq connect_weights_body_def)

lemma connect_bias_raises:
  "int_shape_1 (tensor (objs s b)) = Inl e \<Longrightarrow>
   connect_bias nm name bn s b = (Inl e, snd (copy s b))"
  by (simp add: connect_bias_def immutable_def copy_eq connect_bias_body_def)

lemma iter_empty:
  "dfs t = [] \<Longrightarrow> iter_leafs body s t = (Inr [], s)"
  "concat (map dfs ts) = [] \<Longrightarrow> iter_branches body s ts = (Inr [], s)"
  by (induction body s t and body s ts rule: iter_leafs_iter_branches.induct) auto

lemma add_builders_Nil:
  "add_builders s [] =
     (Inr (n_objs s),
      s\<lparr> dicts := (dicts s)(n_dicts s := Map.empty), n_dicts := Suc (n_dicts s),
         objs := (objs s)(n_objs s := \<lparr> tensor = PyNone, variables = n_dicts s \<rparr>),
         n_objs := Suc (n_objs s) \<rparr>)"
  by (simp add: add_builders_def new_dict_def new_Builder_def)

section \<open>Frames\<close>

lemma frame_refl: "frame s s" by (simp add: frame_def)

lemma frame_trans: "frame s s1 \<Longrightarrow> frame s1 s2 \<Longrightarrow> frame s s2"
  by (auto simp: frame_def)

lemma touches_immutable:
  assumes "\<And>s c. touches s c (snd (meth s c))"
  shows "frame s (snd (immutable meth s b))"
proof -
  have "touches (snd (copy s b)) (n_objs s) (snd (meth (snd (copy s b)) (n_objs s)))"
    by (rule assms)
  then show ?thesis
    by (auto simp: immutable_def copy_eq touches_def frame_def)
qed

lemma touches_cw: "touches s c (snd (connect_weights_body nm sz name wn s c))"
  by (auto simp: connect_weights_body_def touches_def tf_Variable_def Let_def set_item_def set_tensor_def
      split: sum.splits pyval.splits)

lemma touches_cb: "touches s c (snd (connect_bias_body nm name bn s c))"
  by (auto simp: connect_bias_body_def touches_def tf_Variable_def Let_def set_item_def set_tensor_def
      split: sum.splits pyval.splits)

lemma frame_connect_weights: "frame s (snd (connect_weights nm sz name wn s b))"
  unfolding connect_weights_def by (rule touches_immutable) (rule touches_cw)

lemma frame_connect_bias: "frame s (snd (connect_bias nm name bn s b))"
  unfolding connect_bias_def by (rule touches_immutable) (rule touches_cb)

lemma fresh_immutable_self:
  assumes "\<And>s c r s'. meth s c = (Inr r, s') \<Longrightarrow> r = c \<and> n_objs s \<le> n_objs s'"
  shows "immutable meth s b = (Inr r, s') \<Longrightarrow> r = n_objs s \<and> r < n_objs s'"
  using assms[of "snd (copy s b)" "n_objs s" r s']
  by (auto simp: immutable_def copy_eq)

lemma cw_body_res: "connect_weights_body nm sz name wn s c = (Inr r, s') \<Longrightarrow> r = c \<and> n_objs s \<le> n_objs s'"
  by (auto simp: connect_weights_body_def tf_Variable_def Let_def set_item_def set_tensor_def
      split: sum.splits pyval.splits)

lemma cb_body_res: "connect_bias_body nm name bn s c = (Inr r, s') \<Longrightarrow> r = c \<and> n_objs s \<le> n_objs s'"
  by (auto simp: connect_bias_body_def tf_Variable_def Let_def set_item_def set_tensor_def
      split: sum.splits pyval.splits)

lemma connect_weights_res: "connect_weights nm sz name wn s b = (Inr r, s') \<Longrightarrow> r = n_objs s \<and> r < n_objs s'"
  unfolding connect_weights_def by (rule fresh_immutable_self) (rule cw_body_res)

lemma connect_bias_res: "connect_bias nm name bn s b = (Inr r, s') \<Longrightarrow> r = n_objs s \<and> r < n_objs s'"
  unfolding connect_bias_def by (rule fresh_immutable_self) (rule cb_body_res)

lemma touches_frame: "frame s s' \<Longrightarrow> touches s c s'"
  by (simp add: frame_def touches_def)

lemma frame_set_tensor: "frame s s1 \<Longrightarrow> n_objs s \<le> b \<Longrightarrow> frame s (set_tensor s1 b t)"
  by (auto simp: frame_def set_tensor_def)

lemma confined_fnD: "confined_fn fn \<Longrightarrow> fn s v = (r, s') \<Longrightarrow> frame s s'"
  by (metis confined_fn_def snd_conv)

lemma frame_apply_fn:
  assumes "frame s s1" and "n_objs s \<le> b" and "fn_ok fn name"
  shows "frame s (snd (apply_fn fn name s1 b))"
proof (cases fn)
  case None
  then show ?thesis using assms(1) by (simp add: apply_fn_def)
next
  case (Some f)
  obtain r s2 where r: "f s1 (tensor (objs s1 b)) name = (r, s2)"
    by (cases "f s1 (tensor (objs s1 b)) name")
  have "frame s1 s2"
    using assms(3) Some confined_fnD [of "\<lambda>s v. f s v name" s1 "tensor (objs s1 b)" r s2] r
    by simp
  with assms(1) have "frame s s2" by (rule frame_trans)
  then show ?thesis using Some r assms(2)
    by (cases r) (simp_all add: apply_fn_def frame_set_tensor)
qed

lemma apply_fn_res: "apply_fn fn name s b = (Inr r, s') \<Longrightarrow> r = b"
  by (auto simp: apply_fn_def split: option.splits sum.splits prod.splits)

lemma frame_n_objs: "frame s s' \<Longrightarrow> n_objs s \<le> n_objs s'"
  by (simp add: frame_def)

lemma frame_connect_layer_body:
  assumes ok: "fn_ok fn name"
  shows "frame s (snd (connect_layer_body nm sz fn name wn bias bn s c))"
proof -
  obtain r1 s1 where 1: "connect_weights nm sz None wn s c = (r1, s1)" by (cases "connect_weights nm sz None wn s c")
  have f1: "frame s s1" using frame_connect_weights [of s nm sz None wn c] 1 by simp
  show ?thesis
  proof (cases r1)
    case (Inl e)
    then show ?thesis using 1 f1 by (simp add: connect_layer_body_def)
  next
    case (Inr b1)
    with 1 have b1: "b1 = n_objs s" using connect_weights_res by blast
    obtain r2 s2 where 2: "(if bias then connect_bias nm None bn s1 b1 else (Inr b1, s1)) = (r2, s2)"
      by (cases "(if bias then connect_bias nm None bn s1 b1 else (Inr b1, s1))")
    have f2: "frame s1 s2" using frame_connect_bias [of s1 nm None bn b1] 2
      by (auto simp: frame_refl split: if_splits)
    have f12: "frame s s2" using f1 f2 by (rule frame_trans)
    show ?thesis
    proof (cases r2)
      case (Inl e)
      then show ?thesis using 1 Inr 2 f12 by (simp add: connect_layer_body_def)
    next
      case r2: (Inr b2)
      have "n_objs s \<le> b2"
        using 2 r2 b1 connect_bias_res [of nm None bn s1 b1 b2 s2] frame_n_objs [OF f1]
        by (auto split: if_splits)
      then show ?thesis using 1 Inr 2 r2 f12 ok
        by (simp add: connect_layer_body_def frame_apply_fn)
    qed
  qed
qed

lemma connect_layer_body_res:
  assumes "connect_layer_body nm sz fn name wn bias bn s c = (Inr r, s')"
  shows "n_objs s \<le> r"
proof -
  from assms obtain b1 s1 b2 s2 where 1: "connect_weights nm sz None wn s c = (Inr b1, s1)"
    and 2: "(if bias then connect_bias nm None bn s1 b1 else (Inr b1, s1)) = (Inr b2, s2)"
    and 3: "apply_fn fn name s2 b2 = (Inr r, s')"
    by (auto simp: connect_layer_body_def split: prod.splits sum.splits)
  from connect_weights_res [OF 1] have a: "b1 = n_objs s" "b1 < n_objs s1" by auto
  from 2 a have b: "n_objs s \<le> b2 \<and> b2 < n_objs s2"
    using connect_bias_res [of nm None bn s1 b1 b2 s2] by (auto split: if_splits)
  from apply_fn_res [OF 3] b show ?thesis by simp
qed

lemma frame_immutable:
  assumes "\<And>s c. frame s (snd (meth s c))"
  shows "frame s (snd (immutable meth s b))"
  by (rule touches_immutable) (rule touches_frame, rule assms)

lemma frame_connect_layer:
  "fn_ok fn name \<Longrightarrow> frame s (snd (connect_layer nm sz fn name wn bias bn s b))"
  unfolding connect_layer_def by (rule frame_immutable) (rule frame_connect_layer_body)

lemma connect_layer_res:
  assumes "connect_layer nm sz fn name wn bias bn s b = (Inr r, s')"
  shows "n_objs s < r"
  using assms connect_layer_body_res [of nm sz fn name wn bias bn "snd (copy s b)" "n_objs s" r s']
  by (simp add: connect_layer_def immutable_def copy_eq)

lemma touches_map_body:
  assumes "confined_fn fn"
  shows "touches s c (snd (map_body fn s c))"
proof -
  obtain r s1 where r: "fn s (tensor (objs s c)) = (r, s1)" by (cases "fn s (tensor (objs s c))")
  have "frame s s1" using confined_fnD [OF assms r] .
  then show ?thesis using r
    by (cases r) (auto simp: map_body_def touches_def frame_def set_tensor_def)
qed

lemma frame_map: "confined_fn fn \<Longrightarrow> frame s (snd (map' fn s b))"
  unfolding map'_def by (rule touches_immutable) (rule touches_map_body)

lemma map_res: "map' fn s b = (Inr r, s') \<Longrightarrow> r = n_objs s"
  by (auto simp: map'_def immutable_def copy_eq map_body_def split: sum.splits prod.splits)

lemma frame_then: "confined fn \<Longrightarrow> frame s (snd (then' fn s b))"
  unfolding then'_def by (rule touches_immutable) (simp add: confined_def)

lemma confinedD: "confined fn \<Longrightarrow> fn s c = (r, s') \<Longrightarrow> touches s c s'"
  by (metis confined_def snd_conv)

lemma frame_branch:
  assumes "confined fn"
  shows "frame s (snd (branch fn s b))"
  unfolding branch_def
proof (rule touches_immutable)
  fix s c
  show "touches s c (snd (case fn s c of (Inl e, s1) \<Rightarrow> (Inl e, s1)
                           | (Inr brs, s1) \<Rightarrow> (Inr (BuilderTree brs), s1)))"
    using confinedD [OF assms, of s c] by (cases "fn s c") (auto split: sum.splits)
qed

lemma thread_append:
  "thread F g (xs @ ys) =
     (let (a, g1) = thread F g xs; (b, g2) = thread F g1 ys in (a @ b, g2))"
  by (induction xs arbitrary: g) (auto split: prod.splits)

lemma frame_allocated: "frame s s' \<Longrightarrow> allocated s b \<Longrightarrow> allocated s' b"
  by (auto simp: frame_def allocated_def)

lemma frame_content: "frame s s' \<Longrightarrow> allocated s b \<Longrightarrow> content s' b = content s b"
  by (auto simp: frame_def allocated_def content_def tensor_of_def vars_of_def)

lemma copy_content:
  "copy s b = (c, s1) \<Longrightarrow>
   c = n_objs s \<and> allocated s1 c \<and> content s1 c = content s b \<and> graph s1 = graph s \<and> frame s s1
   \<and> n_objs s1 = Suc (n_objs s) \<and> variables (objs s1 c) = n_dicts s"
  by (auto simp: copy_eq allocated_def content_def tensor_of_def vars_of_def frame_def)

lemma touches_after_copy:
  "copy s b = (c, s1) \<Longrightarrow> touches s1 c s2 \<Longrightarrow> frame s s2"
  by (auto simp: copy_eq touches_def frame_def)

lemma iter_thread:
  fixes body :: "state \<Rightarrow> nat \<Rightarrow> 'a res" and obs :: "state \<Rightarrow> 'a \<Rightarrow> 'b"
  assumes bd: "\<And>s c. allocated s c \<Longrightarrow> P (content s c) \<Longrightarrow>
      \<exists>r s'. body s c = (Inr r, s') \<and> touches s c s' \<and> keeps s' r
        \<and> (obs s' r, graph s') = F (graph s) (content s c)"
    and kp: "\<And>s s' r. keeps s r \<Longrightarrow> frame s s' \<Longrightarrow> keeps s' r \<and> obs s' r = obs s r"
  shows "(\<forall>b\<in>set (dfs t). allocated s b \<and> P (content s b)) \<Longrightarrow>
      \<exists>rs s'. iter_leafs body s t = (Inr rs, s') \<and> frame s s' \<and> (\<forall>r\<in>set rs. keeps s' r)
        \<and> (map (obs s') rs, graph s') = thread F (graph s) (map (content s) (dfs t))"
    and "(\<forall>b\<in>set (concat (map dfs ts)). allocated s b \<and> P (content s b)) \<Longrightarrow>
      \<exists>rs s'. iter_branches body s ts = (Inr rs, s') \<and> frame s s' \<and> (\<forall>r\<in>set rs. keeps s' r)
        \<and> (map (obs s') rs, graph s') = thread F (graph s) (map (content s) (concat (map dfs ts)))"
  using bd kp
proof (induction body s t and body s ts rule: iter_leafs_iter_branches.induct)
  case (1 body s b)
  obtain c s1 where c: "copy s b = (c, s1)" by (cases "copy s b")
  note cc = copy_content [OF c]
  from 1(1) have "P (content s b)" by simp
  with cc have "P (content s1 c)" by metis
  moreover have "allocated s1 c" using cc by blast
  ultimately obtain r s2 where r0: "body s1 c = (Inr r, s2)" "touches s1 c s2"
    "keeps s2 r" "(obs s2 r, graph s2) = F (graph s1) (content s1 c)"
    using 1(2) [of s1 c] by blast
  have g: "graph s1 = graph s" "content s1 c = content s b" using cc by blast+
  note r = r0(1-3) r0(4) [unfolded g]
  have "frame s s2" using touches_after_copy [OF c r(2)] .
  with c r show ?case by (auto split: prod.splits)
next
  case (2 body s branches)
  then show ?case by simp
next
  case (3 body s)
  then show ?case by (simp add: frame_refl)
next
  case (4 body s br rest)
  have a0: "\<forall>b\<in>set (dfs br). allocated s b \<and> P (content s b)" using 4(3) by simp
  have "\<exists>rs s'. iter_leafs body s br = (Inr rs, s') \<and> frame s s' \<and> (\<forall>r\<in>set rs. keeps s' r)
        \<and> (map (obs s') rs, graph s') = thread F (graph s) (map (content s) (dfs br))"
    by (rule 4(1) [OF a0]) (fact 4(4), fact 4(5))
  then obtain xs s1 where x: "iter_leafs body s br = (Inr xs, s1)" "frame s s1"
    "\<forall>r\<in>set xs. keeps s1 r"
    "(map (obs s1) xs, graph s1) = thread F (graph s) (map (content s) (dfs br))"
    by blast
  have al: "\<forall>b\<in>set (concat (map dfs rest)). allocated s1 b \<and> P (content s1 b)"
    using 4(3) x(2) by (auto simp: frame_allocated frame_content)
  have "\<exists>rs s'. iter_branches body s1 rest = (Inr rs, s') \<and> frame s1 s'
        \<and> (\<forall>r\<in>set rs. keeps s' r)
        \<and> (map (obs s') rs, graph s')
            = thread F (graph s1) (map (content s1) (concat (map dfs rest)))"
    by (rule 4(2) [OF x(1) [symmetric] refl al]) (fact 4(4), fact 4(5))
  then obtain ys s2 where y: "iter_branches body s1 rest = (Inr ys, s2)"
    "frame s1 s2" "\<forall>r\<in>set ys. keeps s2 r"
    "(map (obs s2) ys, graph s2) = thread F (graph s1) (map (content s1) (concat (map dfs rest)))"
    by blast
  have c1: "map (content s1) (concat (map dfs rest)) = map (content s) (concat (map dfs rest))"
    using 4(3) x(2) by (auto simp: frame_content)
  have o: "map (obs s2) xs = map (obs s1) xs" "\<forall>r\<in>set xs. keeps s2 r"
    using x(3) y(2) 4(5) by auto
  have "frame s s2" using x(2) y(2) by (rule frame_trans)
  moreover have "(map (obs s2) (xs @ ys), graph s2)
      = thread F (graph s) (map (content s) (concat (map dfs (br # rest))))"
    using x(4) [symmetric] y(4) [symmetric] c1 o(1) by (simp add: thread_append)
  ultimately show ?case using x(1) y(1) y(3) o(2) by auto
qed

section \<open>connect_weights on a 2-D value\<close>

text \<open>
  C4. When the receiver's value is a tensor of shape \<open>[m, n]\<close>, \<open>connect_weights\<close>
  returns a new Builder; exactly one variable is created, of shape \<open>[n, size]\<close>, named by
  the framework from \<open>weights_name\<close>; the result's mapping is the receiver's plus that
  variable under \<open>weights_name\<close> when one is given (and is not the empty string) and
  under the framework's name otherwise; the result's value is the matrix product of the
  receiver's value and the variable, tagged with \<open>name\<close>.
\<close>

theorem connect_weights_2d:
  assumes "tensor_of s b = Tensor x" and "get_shape x = [m, Some n]"
  shows "\<exists>w s'. connect_weights nm sz name weights_name s b = (Inr (n_objs s), s')
     \<and> w = Variable (length (graph s)) [n, sz] (nm (graph s) weights_name)
     \<and> graph s' = graph s @ [w]
     \<and> vars_of s' (n_objs s) =
         (vars_of s b)((case weights_name of None \<Rightarrow> var_name w
                         | Some given \<Rightarrow> if given = [] then var_name w else given) \<mapsto> w)
     \<and> tensor_of s' (n_objs s) = Tensor (MatMul x (Var w) name)"
  using assms
  by (cases weights_name)
     (simp_all add: connect_weights_def immutable_def copy_eq connect_weights_body_def
      int_shape_1_2d tf_matmul_2d tf_Variable_def Let_def set_item_def set_tensor_def
      vars_of_def tensor_of_def)

theorem connect_weights_2d_witness:
  "tensor_of (one_builder x_5) 0 = Tensor x_5 \<and> get_shape x_5 = [None, Some 5] \<and>
   (\<exists>s'. connect_weights example_namer 3 None (Some ''weights'') (one_builder x_5) 0 = (Inr 1, s')
      \<and> graph s' = [Variable 0 [5, 3] ''weights'']
      \<and> vars_of s' 1 = [''weights'' \<mapsto> Variable 0 [5, 3] ''weights'']
      \<and> tensor_of s' 1 = Tensor (MatMul x_5 (Var (Variable 0 [5, 3] ''weights'')) None))"
proof -
  have h1: "tensor_of (one_builder x_5) 0 = Tensor x_5"
    by (simp add: one_builder_eq tensor_of_def)
  have h2: "get_shape x_5 = [None, Some 5]"
    by (simp add: x_5_def)
  have e: "vars_of (one_builder x_5) 0 = Map.empty"
    by (simp add: one_builder_eq vars_of_def init_state_def)
  show ?thesis
    using connect_weights_2d [OF h1 h2, of example_namer 3 None "Some ''weights''"] h1 h2 e
    by (simp add: one_builder_eq init_state_def example_namer_def)
qed

section \<open>Values that are not 2-D\<close>

lemma bcast_rev_Nil2: "bcast_rev xs [] = Some xs"
  by (cases xs) simp_all

lemma bdim_None_iff:
  "bdim d (Some n) = None \<longleftrightarrow> (\<exists>a. d = Some a \<and> a \<noteq> n \<and> a \<noteq> 1 \<and> n \<noteq> 1)"
  by (cases d) auto

lemma broadcast_vec:
  assumes "sh \<noteq> []"
  shows "broadcast sh [k] = None \<longleftrightarrow> bdim (last sh) k = None"
proof -
  from assms obtain ys l where sh: "sh = ys @ [l]" by (cases sh rule: rev_cases) auto
  show ?thesis
    by (simp add: sh broadcast_def bcast_rev_Nil2 split: option.splits)
qed

lemma connect_bias_many:
  assumes "tensor_of s b = Tensor x" and "get_shape x = m # Some n # rest"
  shows "let bv = Variable (length (graph s)) [n] (nm (graph s) bias_name)
         in graph (snd (connect_bias nm name bias_name s b)) = graph s @ [bv]
          \<and> fst (connect_bias nm name bias_name s b)
             = (if bdim (last (get_shape x)) (Some n) = None then Inl ValueError else Inr (n_objs s))"
proof -
  have ne: "get_shape x \<noteq> []" using assms(2) by simp
  have i: "int_shape_1 (tensor (objs s b)) = Inr n"
    using assms by (simp add: tensor_of_def int_shape_1_2d)
  show ?thesis
    using assms(1) i broadcast_vec [OF ne, of "Some n"]
    by (cases "broadcast (get_shape x) [Some n]")
       (auto simp: connect_bias_def immutable_def copy_eq connect_bias_body_def tf_Variable_def
         Let_def set_item_def set_tensor_def tf_add_def tensor_of_def)
qed

text \<open>
  C1, as the code has it. When the receiver's value is not a tensor with at least two
  dimensions of which the second is known, \<open>connect_weights\<close> and \<open>connect_bias\<close> both
  fail at the call with the error of reading the shape (AttributeError, IndexError or
  TypeError), before any variable is created; and \<open>connect_weights\<close> fails for every
  value that is not a tensor of shape \<open>[m, n]\<close>. For a tensor of three or more dimensions
  whose second dimension \<open>n\<close> is known, \<open>connect_bias\<close> creates the bias of length \<open>n\<close> and
  then fails with the framework's ValueError exactly when the last dimension is known,
  differs from \<open>n\<close>, and neither of the two is 1; otherwise it returns a new Builder. The
  error is the call's result: nothing catches or retries it.
\<close>

theorem connect_not_2d:
  "(\<not> (\<exists>x m n rest. tensor_of s b = Tensor x \<and> get_shape x = m # Some n # rest) \<longrightarrow>
      (\<exists>e. (e = AttributeError \<or> e = IndexError \<or> e = TypeError)
         \<and> connect_weights nm sz name weights_name s b = (Inl e, snd (copy s b))
         \<and> connect_bias nm name bias_name s b = (Inl e, snd (copy s b))
         \<and> graph (snd (copy s b)) = graph s))
   \<and> (\<not> (\<exists>x m n. tensor_of s b = Tensor x \<and> get_shape x = [m, Some n]) \<longrightarrow>
      (\<exists>e. fst (connect_weights nm sz name weights_name s b) = Inl e))
   \<and> (tensor_of s b = Tensor x \<and> get_shape x = m # Some n # d # rest \<longrightarrow>
        graph (snd (connect_bias nm name bias_name s b))
          = graph s @ [Variable (length (graph s)) [n] (nm (graph s) bias_name)]
      \<and> fst (connect_bias nm name bias_name s b)
          = (if \<exists>a. last (d # rest) = Some a \<and> a \<noteq> n \<and> a \<noteq> 1 \<and> n \<noteq> 1
             then Inl ValueError else Inr (n_objs s)))"
proof (rule conjI [OF _ conjI])
  show "\<not> (\<exists>x m n rest. tensor_of s b = Tensor x \<and> get_shape x = m # Some n # rest) \<longrightarrow>
      (\<exists>e. (e = AttributeError \<or> e = IndexError \<or> e = TypeError)
         \<and> connect_weights nm sz name weights_name s b = (Inl e, snd (copy s b))
         \<and> connect_bias nm name bias_name s b = (Inl e, snd (copy s b))
         \<and> graph (snd (copy s b)) = graph s)"
  proof
    assume a: "\<not> (\<exists>x m n rest. tensor_of s b = Tensor x \<and> get_shape x = m # Some n # rest)"
    have "\<exists>e. int_shape_1 (tensor (objs s b)) = Inl e"
    proof (cases "int_shape_1 (tensor (objs s b))")
      case (Inr k)
      from int_shape_1_Inr [OF this] a show ?thesis by (auto simp: tensor_of_def)
    qed simp
    then obtain e where e: "int_shape_1 (tensor (objs s b)) = Inl e" ..
    have k: "e = AttributeError \<or> e = IndexError \<or> e = TypeError"
      using int_shape_1_Inl [OF e] .
    show "\<exists>e. (e = AttributeError \<or> e = IndexError \<or> e = TypeError)
           \<and> connect_weights nm sz name weights_name s b = (Inl e, snd (copy s b))
           \<and> connect_bias nm name bias_name s b = (Inl e, snd (copy s b))
           \<and> graph (snd (copy s b)) = graph s"
      using e k by (auto simp: connect_weights_raises connect_bias_raises copy_eq)
  qed
next
  show "\<not> (\<exists>x m n. tensor_of s b = Tensor x \<and> get_shape x = [m, Some n]) \<longrightarrow>
      (\<exists>e. fst (connect_weights nm sz name weights_name s b) = Inl e)"
  proof
    assume a: "\<not> (\<exists>x m n. tensor_of s b = Tensor x \<and> get_shape x = [m, Some n])"
    show "\<exists>e. fst (connect_weights nm sz name weights_name s b) = Inl e"
    proof (cases "int_shape_1 (tensor (objs s b))")
      case (Inl e)
      then show ?thesis by (simp add: connect_weights_raises)
    next
      case (Inr k)
      from int_shape_1_Inr [OF this]
      obtain x m rest where x: "tensor (objs s b) = Tensor x" "get_shape x = m # Some k # rest"
        by blast
      with a have "rest \<noteq> []" by (auto simp: tensor_of_def)
      then obtain r rs where "rest = r # rs" by (cases rest) auto
      with x Inr show ?thesis
        by (simp add: connect_weights_def immutable_def copy_eq connect_weights_body_def
            tf_Variable_def Let_def set_item_def tf_matmul_def)
    qed
  qed
next
  show "tensor_of s b = Tensor x \<and> get_shape x = m # Some n # d # rest \<longrightarrow>
        graph (snd (connect_bias nm name bias_name s b))
          = graph s @ [Variable (length (graph s)) [n] (nm (graph s) bias_name)]
      \<and> fst (connect_bias nm name bias_name s b)
          = (if \<exists>a. last (d # rest) = Some a \<and> a \<noteq> n \<and> a \<noteq> 1 \<and> n \<noteq> 1
             then Inl ValueError else Inr (n_objs s))"
  proof
    assume a: "tensor_of s b = Tensor x \<and> get_shape x = m # Some n # d # rest"
    then have l: "last (get_shape x) = last (d # rest)" by simp
    from a connect_bias_many [of s b x m n "d # rest" nm bias_name name]
    show "graph (snd (connect_bias nm name bias_name s b))
          = graph s @ [Variable (length (graph s)) [n] (nm (graph s) bias_name)]
      \<and> fst (connect_bias nm name bias_name s b)
          = (if \<exists>a. last (d # rest) = Some a \<and> a \<noteq> n \<and> a \<noteq> 1 \<and> n \<noteq> 1
             then Inl ValueError else Inr (n_objs s))"
      unfolding Let_def l bdim_None_iff by simp
  qed
qed

theorem connect_not_2d_witness:
  "\<not> (\<exists>x m n rest. tensor_of (one_builder x_vec) 0 = Tensor x \<and> get_shape x = m # Some n # rest)
   \<and> fst (connect_weights example_namer 3 None None (one_builder x_vec) 0) = Inl IndexError
   \<and> fst (connect_bias example_namer None None (one_builder x_vec) 0) = Inl IndexError
   \<and> tensor_of (one_builder x_234) 0 = Tensor x_234
   \<and> get_shape x_234 = [Some 2, Some 3, Some 4]
   \<and> fst (connect_bias example_namer None None (one_builder x_234) 0) = Inl ValueError
   \<and> graph (snd (connect_bias example_namer None None (one_builder x_234) 0))
       = [Variable 0 [3] ''Variable_'']"
proof -
  have h: "\<not> (\<exists>x m n rest. tensor_of (one_builder x_vec) 0 = Tensor x
             \<and> get_shape x = m # Some n # rest)"
    by (auto simp: one_builder_eq tensor_of_def x_vec_def)
  have i: "int_shape_1 (tensor (objs (one_builder x_vec) 0)) = Inl IndexError"
    by (simp add: one_builder_eq int_shape_1_def x_vec_def)
  from connect_not_2d [of "one_builder x_vec" 0 example_namer 3 None None None] h
  obtain e where
    "connect_weights example_namer 3 None None (one_builder x_vec) 0
       = (Inl e, snd (copy (one_builder x_vec) 0))"
    "connect_bias example_namer None None (one_builder x_vec) 0
       = (Inl e, snd (copy (one_builder x_vec) 0))"
    by blast
  moreover from this(1) i have "e = IndexError"
    by (simp add: connect_weights_raises)
  ultimately have 1: "fst (connect_weights example_namer 3 None None (one_builder x_vec) 0) = Inl IndexError"
    "fst (connect_bias example_namer None None (one_builder x_vec) 0) = Inl IndexError"
    by simp_all
  have t: "tensor_of (one_builder x_234) 0 = Tensor x_234"
    "get_shape x_234 = [Some 2, Some 3, Some 4]"
    by (simp_all add: one_builder_eq tensor_of_def x_234_def)
  have g: "graph (one_builder x_234) = []" by (simp add: one_builder_eq init_state_def)
  from connect_not_2d [where s = "one_builder x_234" and b = 0 and x = x_234 and m = "Some 2"
      and n = 3 and d = "Some 4" and rest = "[]" and nm = example_namer and name = None
      and bias_name = None] t
  have 2: "fst (connect_bias example_namer None None (one_builder x_234) 0) = Inl ValueError"
    "graph (snd (connect_bias example_namer None None (one_builder x_234) 0))
       = [Variable 0 [3] ''Variable_'']"
    by (simp_all add: g example_namer_def)
  show ?thesis using h 1 t 2 by simp
qed

text \<open>A value of shape \<open>[2, 3, 3]\<close> is not 2-D, and \<open>connect_bias\<close> returns a Builder for
  it: the bias of length 3 broadcasts against the last dimension.\<close>

theorem connect_bias_rank3_returns:
  "get_shape x_233 = [Some 2, Some 3, Some 3]
   \<and> fst (connect_bias example_namer None None (one_builder x_233) 0) = Inr 1"
  by (simp add: x_233_def one_builder_eq init_state_def
      connect_bias_def immutable_def copy_eq connect_bias_body_def int_shape_1_def
      tf_Variable_def set_item_def set_tensor_def tf_add_def broadcast_def example_namer_def
      Let_def)

section \<open>Fan-in over a tree without leaves\<close>

text \<open>
  C2, as the code has it. For a tree with no leaves the sum is Python's \<open>None\<close> with an
  empty mapping. With a bias, \<open>connect_layer\<close> fails with AttributeError (\<open>None\<close> has no
  shape), whatever the size, the activation and the names; without a bias and without an
  activation it returns a Builder whose value is \<open>None\<close> and whose mapping is empty.
\<close>

theorem empty_tree_connect_layer:
  assumes "concat (map dfs brs) = []"
  shows "(bias \<longrightarrow> fst (tree_connect_layer nm sz fn name bias bias_name s brs) = Inl AttributeError)
     \<and> (\<not> bias \<and> fn = None \<longrightarrow>
          (\<exists>s'. tree_connect_layer nm sz fn name bias bias_name s brs = (Inr (n_objs s), s')
             \<and> tensor_of s' (n_objs s) = PyNone \<and> vars_of s' (n_objs s) = Map.empty))"
proof -
  have it: "iter_branches (connect_weights nm sz None None) s brs = (Inr [], s)"
    using assms by (simp add: iter_empty)
  have none: "int_shape_1 PyNone = Inl AttributeError"
    by (simp add: int_shape_1_def)
  show ?thesis
  proof (cases bias)
    case True
    then show ?thesis
      by (simp add: tree_connect_layer_def it add_builders_Nil connect_bias_raises none)
  next
    case False
    then show ?thesis
      by (simp add: tree_connect_layer_def it add_builders_Nil apply_fn_def tensor_of_def
          vars_of_def)
  qed
qed

theorem empty_tree_connect_layer_witness:
  "concat (map dfs [BuilderTree []]) = []
   \<and> fst (tree_connect_layer example_namer 3 None (Some ''layer'') True None init_state
            [BuilderTree []]) = Inl AttributeError"
proof -
  have h: "concat (map dfs [BuilderTree []]) = []" by simp
  show ?thesis
    using empty_tree_connect_layer [OF h, of True example_namer 3 None "Some ''layer''" None
        init_state] h
    by simp
qed

text \<open>\<open>branches([]).connect_layer(3, bias=False)\<close> returns a Builder; no error is raised.\<close>

theorem empty_tree_connect_layer_returns:
  "dfs (branches []) = []
   \<and> fst (tree_connect_layer example_namer 3 None (Some ''layer'') False None init_state []) = Inr 0"
  by (simp add: branches_def tree_connect_layer_def add_builders_Nil apply_fn_def init_state_def)

section \<open>Enumerating the leaves\<close>

lemma thread_id: "thread (\<lambda>g c. (f c, g)) g cs = (map f cs, g)"
  by (induction cs) auto

lemma leafs_contents:
  assumes "\<forall>b\<in>set (dfs t). allocated s b"
  shows "\<exists>rs s'. leafs s t = (Inr rs, s') \<and> frame s s' \<and> (\<forall>r\<in>set rs. allocated s' r)
     \<and> map (content s') rs = map (content s) (dfs t) \<and> graph s' = graph s"
proof -
  have "\<exists>rs s'. iter_leafs (\<lambda>s b. (Inr b, s)) s t = (Inr rs, s') \<and> frame s s'
      \<and> (\<forall>r\<in>set rs. allocated s' r)
      \<and> (map (content s') rs, graph s')
          = thread (\<lambda>g c. (c, g)) (graph s) (map (content s) (dfs t))"
  proof (rule iter_thread(1) [where P = "\<lambda>_. True"])
    fix s c assume "allocated s c"
    then show "\<exists>r s'. (Inr c, s) = (Inr r, s') \<and> touches s c s' \<and> allocated s' r
        \<and> (content s' r, graph s') = (content s c, graph s)"
      by (simp add: touches_def)
  next
    fix s s' r assume "allocated s r" "frame s s'"
    then show "allocated s' r \<and> content s' r = content s r"
      by (simp add: frame_allocated frame_content)
  next
    show "\<forall>b\<in>set (dfs t). allocated s b \<and> True" using assms by simp
  qed
  then show ?thesis by (simp add: leafs_def thread_id)
qed

lemma three_builders_eq:
  "three_builders =
     init_state\<lparr> objs := (objs init_state)
                   (0 := \<lparr> tensor = Tensor x_8, variables = 0 \<rparr>,
                    Suc 0 := \<lparr> tensor = Tensor x_5, variables = 0 \<rparr>,
                    2 := \<lparr> tensor = Tensor x_vec, variables = 0 \<rparr>),
                 n_objs := 3 \<rparr>"
  by (simp add: three_builders_def builder_def new_Builder_def default_variables_def
      init_state_def numeral_3_eq_3 numeral_2_eq_2)

lemma tensors_values:
  assumes "\<forall>b\<in>set (dfs t). allocated s b"
  shows "\<exists>s'. iter_leafs (\<lambda>s b. (Inr (tensor (objs s b)), s)) s t
            = (Inr (map (tensor_of s) (dfs t)), s')"
proof -
  have "\<exists>rs s'. iter_leafs (\<lambda>s b. (Inr (tensor (objs s b)), s)) s t = (Inr rs, s') \<and> frame s s'
      \<and> (\<forall>r\<in>set rs. True)
      \<and> (map ((\<lambda>s v. v) s') rs, graph s')
          = thread (\<lambda>g c. (fst c, g)) (graph s) (map (content s) (dfs t))"
  proof (rule iter_thread(1) [where P = "\<lambda>_. True" and keeps = "\<lambda>_ _. True"])
    fix s c assume "allocated s c"
    then show "\<exists>r s'. (Inr (tensor (objs s c)), s) = (Inr r, s') \<and> touches s c s' \<and> True
        \<and> (r, graph s') = (fst (content s c), graph s)"
      by (simp add: touches_def content_def tensor_of_def)
  next
    show "\<forall>b\<in>set (dfs t). allocated s b \<and> True" using assms by simp
  qed simp
  then show ?thesis by (auto simp: thread_id content_def comp_def)
qed

lemma leafs_fresh:
  fixes body :: "state \<Rightarrow> nat \<Rightarrow> nat res"
  assumes "\<And>s c. body s c = (Inr c, s)"
  shows "\<exists>s'. iter_leafs body s t = (Inr [n_objs s..<n_objs s + length (dfs t)], s')
       \<and> frame s s' \<and> n_objs s' = n_objs s + length (dfs t)
       \<and> n_dicts s' = n_dicts s + length (dfs t)
       \<and> map (\<lambda>r. variables (objs s' r)) [n_objs s..<n_objs s + length (dfs t)]
           = [n_dicts s..<n_dicts s + length (dfs t)]"
    and "\<exists>s'. iter_branches body s ts
           = (Inr [n_objs s..<n_objs s + length (concat (map dfs ts))], s')
       \<and> frame s s' \<and> n_objs s' = n_objs s + length (concat (map dfs ts))
       \<and> n_dicts s' = n_dicts s + length (concat (map dfs ts))
       \<and> map (\<lambda>r. variables (objs s' r)) [n_objs s..<n_objs s + length (concat (map dfs ts))]
           = [n_dicts s..<n_dicts s + length (concat (map dfs ts))]"
  using assms
proof (induction body s t and body s ts rule: iter_leafs_iter_branches.induct)
  case (1 body s b)
  then show ?case by (simp add: copy_eq frame_def)
next
  case (2 body s branches)
  then show ?case by simp
next
  case (3 body s)
  then show ?case by (simp add: frame_refl)
next
  case (4 body s br rest)
  let ?k = "length (dfs br)" and ?l = "length (concat (map dfs rest))"
  from 4(1) [OF 4(3)] obtain s1 where
    x: "iter_leafs body s br = (Inr [n_objs s..<n_objs s + ?k], s1)" "frame s s1"
       "n_objs s1 = n_objs s + ?k" "n_dicts s1 = n_dicts s + ?k"
       "map (\<lambda>r. variables (objs s1 r)) [n_objs s..<n_objs s + ?k] = [n_dicts s..<n_dicts s + ?k]"
    by blast
  from 4(2) [OF x(1) [symmetric] refl 4(3)] obtain s2 where
    y: "iter_branches body s1 rest = (Inr [n_objs s1..<n_objs s1 + ?l], s2)" "frame s1 s2"
       "n_objs s2 = n_objs s1 + ?l" "n_dicts s2 = n_dicts s1 + ?l"
       "map (\<lambda>r. variables (objs s2 r)) [n_objs s1..<n_objs s1 + ?l] = [n_dicts s1..<n_dicts s1 + ?l]"
    by blast
  have keep: "map (\<lambda>r. variables (objs s2 r)) [n_objs s..<n_objs s + ?k]
      = map (\<lambda>r. variables (objs s1 r)) [n_objs s..<n_objs s + ?k]"
    using y(2) x(3) by (auto simp: frame_def)
  have split: "[n_objs s..<n_objs s + (?k + ?l)] = [n_objs s..<n_objs s + ?k] @ [n_objs s + ?k..<n_objs s + ?k + ?l]"
    by (metis add.assoc le_add1 upt_add_eq_append)
  have splitd: "[n_dicts s..<n_dicts s + (?k + ?l)] = [n_dicts s..<n_dicts s + ?k] @ [n_dicts s + ?k..<n_dicts s + ?k + ?l]"
    by (metis add.assoc le_add1 upt_add_eq_append)
  have "frame s s2" using x(2) y(2) by (rule frame_trans)
  then show ?case
    using x(1) y(1) y(3) y(4) x(3) x(4) keep x(5) y(5)
    by (simp add: split splitd add.assoc)
qed

text \<open>
  C7, as the code has it. For a tree whose Builders are in the store, \<open>builders()\<close>
  returns a list with one Builder for each Builder reachable from \<open>branches\<close>, in
  depth-first, left-to-right order. The Builders listed are not those of the tree: the
  i-th one is a new object, the copy that \<open>_leafs\<close> makes of the i-th leaf in that order,
  with a new dictionary of its own, and it carries the value and the mapping of that
  leaf; the leaves are left as they were. \<open>tensors()\<close> returns the values of the leaves in
  the same order.
\<close>

theorem builders_depth_first:
  assumes "\<forall>b\<in>set (dfs (branches brs)). allocated s b"
  shows "(\<exists>rs s'. builders s brs = (Inr rs, s')
       \<and> rs = [n_objs s..<n_objs s + length (dfs (branches brs))]
       \<and> set rs \<inter> set (dfs (branches brs)) = {}
       \<and> map (\<lambda>r. variables (objs s' r)) rs
           = [n_dicts s..<n_dicts s + length (dfs (branches brs))]
       \<and> map (tensor_of s') rs = map (tensor_of s) (dfs (branches brs))
       \<and> map (vars_of s') rs = map (vars_of s) (dfs (branches brs))
       \<and> map (tensor_of s') (dfs (branches brs)) = map (tensor_of s) (dfs (branches brs))
       \<and> map (vars_of s') (dfs (branches brs)) = map (vars_of s) (dfs (branches brs)))
     \<and> (\<exists>s'. tensors s brs = (Inr (map (tensor_of s) (dfs (branches brs))), s'))"
proof
  let ?ls = "dfs (BuilderTree brs)"
  from leafs_contents [of "BuilderTree brs" s] assms
  obtain rs s' where r: "leafs s (BuilderTree brs) = (Inr rs, s')" "frame s s'"
    "map (content s') rs = map (content s) ?ls"
    by (auto simp: branches_def)
  from leafs_fresh(1) [of "\<lambda>s b. (Inr b, s)" s "BuilderTree brs"] r(1)
  have f: "rs = [n_objs s..<n_objs s + length ?ls]"
    "map (\<lambda>r. variables (objs s' r)) rs = [n_dicts s..<n_dicts s + length ?ls]"
    by (auto simp: leafs_def)
  have "map (fst \<circ> content s') rs = map (fst \<circ> content s) ?ls"
    "map (snd \<circ> content s') rs = map (snd \<circ> content s) ?ls"
    using r(3) by (metis map_map)+
  then have c: "map (tensor_of s') rs = map (tensor_of s) ?ls"
    "map (vars_of s') rs = map (vars_of s) ?ls"
    by (simp_all add: content_def comp_def)
  have d: "set rs \<inter> set ?ls = {}"
  proof -
    have "\<forall>b\<in>set ?ls. b < n_objs s" using assms by (simp add: branches_def allocated_def)
    then show ?thesis unfolding f(1) by fastforce
  qed
  have "\<forall>b\<in>set ?ls. content s' b = content s b"
    using assms r(2) by (auto simp: branches_def frame_content)
  then have k: "map (tensor_of s') ?ls = map (tensor_of s) ?ls"
    "map (vars_of s') ?ls = map (vars_of s) ?ls"
    by (auto simp: content_def)
  show "\<exists>rs s'. builders s brs = (Inr rs, s')
       \<and> rs = [n_objs s..<n_objs s + length (dfs (branches brs))]
       \<and> set rs \<inter> set (dfs (branches brs)) = {}
       \<and> map (\<lambda>r. variables (objs s' r)) rs
           = [n_dicts s..<n_dicts s + length (dfs (branches brs))]
       \<and> map (tensor_of s') rs = map (tensor_of s) (dfs (branches brs))
       \<and> map (vars_of s') rs = map (vars_of s) (dfs (branches brs))
       \<and> map (tensor_of s') (dfs (branches brs)) = map (tensor_of s) (dfs (branches brs))
       \<and> map (vars_of s') (dfs (branches brs)) = map (vars_of s) (dfs (branches brs))"
    unfolding builders_def branches_def using r(1) f c d k by blast
next
  show "\<exists>s'. tensors s brs = (Inr (map (tensor_of s) (dfs (branches brs))), s')"
    using tensors_values [of "BuilderTree brs" s] assms
    unfolding tensors_def branches_def by blast
qed

theorem builders_depth_first_witness:
  "allocated three_builders 0 \<and> allocated three_builders 1 \<and> allocated three_builders 2
   \<and> dfs (branches [Leaf 0, BuilderTree [Leaf 1, Leaf 2]]) = [0, 1, 2]
   \<and> (\<exists>s'. builders three_builders [Leaf 0, BuilderTree [Leaf 1, Leaf 2]] = (Inr [3, 4, 5], s')
        \<and> map (tensor_of s') [3, 4, 5] = [Tensor x_8, Tensor x_5, Tensor x_vec]
        \<and> map (\<lambda>r. variables (objs s' r)) [3, 4, 5] = [1, 2, 3])
   \<and> (\<exists>s'. tensors three_builders [Leaf 0, BuilderTree [Leaf 1, Leaf 2]]
             = (Inr [Tensor x_8, Tensor x_5, Tensor x_vec], s'))"
proof -
  have d: "dfs (branches [Leaf 0, BuilderTree [Leaf 1, Leaf 2]]) = [0, 1, 2]"
    by (simp add: branches_def)
  have h: "\<forall>b\<in>set (dfs (branches [Leaf 0, BuilderTree [Leaf 1, Leaf 2]])). allocated three_builders b"
    unfolding d by (simp add: allocated_def three_builders_eq init_state_def)
  have t: "map (tensor_of three_builders) [0, 1, 2] = [Tensor x_8, Tensor x_5, Tensor x_vec]"
    by (simp add: tensor_of_def three_builders_eq)
  have n: "n_objs three_builders = 3" "n_dicts three_builders = 1"
    by (simp_all add: three_builders_eq init_state_def)
  have u: "[3..<6] = [3, 4, 5::nat]" "[1..<4] = [1, 2, 3::nat]"
    by (simp_all add: upt_rec)
  have a: "allocated three_builders 0 \<and> allocated three_builders 1 \<and> allocated three_builders 2"
    using h unfolding d by simp
  note b = builders_depth_first [OF h, unfolded d n t, simplified, unfolded u]
  show ?thesis
    using b a d by auto
qed


text \<open>For the tree \<open>[a, [b, c]]\<close> over objects 0, 1 and 2, \<open>builders()\<close> lists objects 3,
  4 and 5, not the leaves 0, 1 and 2.\<close>

theorem builders_lists_copies:
  "dfs (branches [Leaf 0, BuilderTree [Leaf 1, Leaf 2]]) = [0, 1, 2]
   \<and> fst (builders three_builders [Leaf 0, BuilderTree [Leaf 1, Leaf 2]]) = Inr [3, 4, 5]"
  by (simp add: branches_def builders_def leafs_def copy_eq three_builders_eq init_state_def)

section \<open>The leaves of a Builder\<close>

text \<open>
  C9, as the code has it. \<open>_leafs\<close> on a Builder yields exactly one element: a copy of
  the receiver, a new object with the receiver's value and, in a new dictionary, the
  receiver's mapping; the receiver is unchanged, and the next call yields another new
  object.
\<close>

theorem leafs_of_builder:
  assumes "allocated s b"
  shows "\<exists>s'. leafs s (Leaf b) = (Inr [n_objs s], s')
     \<and> n_objs s \<noteq> b
     \<and> variables (objs s' (n_objs s)) \<noteq> variables (objs s b)
     \<and> tensor_of s' (n_objs s) = tensor_of s b
     \<and> vars_of s' (n_objs s) = vars_of s b
     \<and> tensor_of s' b = tensor_of s b \<and> vars_of s' b = vars_of s b
     \<and> (\<exists>s''. leafs s' (Leaf b) = (Inr [n_objs s'], s'') \<and> n_objs s' \<noteq> n_objs s)"
  using assms
  by (auto simp: leafs_def copy_eq allocated_def tensor_of_def vars_of_def)

theorem leafs_of_builder_witness:
  "allocated (one_builder x_5) 0
   \<and> (\<exists>s'. leafs (one_builder x_5) (Leaf 0) = (Inr [1], s')
        \<and> tensor_of s' 1 = Tensor x_5 \<and> vars_of s' 1 = Map.empty)"
proof -
  have h: "allocated (one_builder x_5) 0"
    by (simp add: allocated_def one_builder_eq init_state_def)
  have "tensor_of (one_builder x_5) 0 = Tensor x_5" "vars_of (one_builder x_5) 0 = Map.empty"
    "n_objs (one_builder x_5) = 1"
    by (simp_all add: tensor_of_def vars_of_def one_builder_eq init_state_def)
  then show ?thesis using leafs_of_builder [OF h] h by auto
qed

text \<open>The Builder that \<open>_leafs\<close> yields for object 0 is object 1, not the receiver.\<close>

theorem leafs_yields_a_copy:
  "fst (leafs (one_builder x_5) (Leaf 0)) = Inr [1] \<and> fst (leafs (one_builder x_5) (Leaf 0)) \<noteq> Inr [0]"
  by (simp add: leafs_def copy_eq one_builder_eq init_state_def)

section \<open>Frames of the tree methods and of programs\<close>

lemma frame_iter:
  fixes body :: "state \<Rightarrow> nat \<Rightarrow> 'a res"
  assumes "\<And>s c. touches s c (snd (body s c))"
  shows "frame s (snd (iter_leafs body s t))" and "frame s (snd (iter_branches body s ts))"
  using assms
proof (induction body s t and body s ts rule: iter_leafs_iter_branches.induct)
  case (1 body s b)
  obtain c s1 where c: "copy s b = (c, s1)" by (cases "copy s b")
  have "touches s1 c (snd (body s1 c))" by (rule 1)
  from touches_after_copy [OF c this] c show ?case
    by (auto split: prod.splits sum.splits)
next
  case (2 body s brs)
  then show ?case by simp
next
  case (3 body s)
  show ?case by (simp add: frame_refl)
next
  case (4 body s br rest)
  obtain r1 s1 where 1: "iter_leafs body s br = (r1, s1)" by (cases "iter_leafs body s br")
  have f1: "frame s s1" using 4(1) [OF 4(3)] 1 by simp
  show ?case
  proof (cases r1)
    case (Inl e)
    then show ?thesis using 1 f1 by simp
  next
    case (Inr xs)
    have "frame s1 (snd (iter_branches body s1 rest))"
      by (rule 4(2) [OF 1 [symmetric] Inr 4(3)])
    then have "frame s (snd (iter_branches body s1 rest))" using f1 frame_trans by blast
    then show ?thesis using 1 Inr by (auto split: prod.splits sum.splits)
  qed
qed

lemma frame_leafs: "frame s (snd (leafs s t))"
  unfolding leafs_def by (rule frame_iter) (simp add: touches_def)

lemma frame_builders: "frame s (snd (builders s brs))"
  unfolding builders_def by (rule frame_leafs)

lemma frame_tensors: "frame s (snd (tensors s brs))"
  unfolding tensors_def by (rule frame_iter) (simp add: touches_def)

lemma add_loop_state:
  "n_objs (snd (add_loop s d t bs)) = n_objs s \<and> n_dicts (snd (add_loop s d t bs)) = n_dicts s
   \<and> objs (snd (add_loop s d t bs)) = objs s \<and> graph (snd (add_loop s d t bs)) = graph s
   \<and> (\<forall>d'. d' \<noteq> d \<longrightarrow> dicts (snd (add_loop s d t bs)) d' = dicts s d')"
  by (induction bs arbitrary: s t) (auto simp: dict_update_def split: sum.splits)

lemma frame_add_builders: "frame s (snd (add_builders s bs))"
proof -
  let ?s1 = "snd (new_dict s Map.empty)"
  note a = add_loop_state [of ?s1 "n_dicts s" PyNone bs]
  show ?thesis
    using a
    by (cases "add_loop ?s1 (n_dicts s) PyNone bs")
       (auto simp: add_builders_def new_dict_def new_Builder_def frame_def split: sum.splits)
qed

lemma add_builders_res:
  "add_builders s bs = (Inr r, s') \<Longrightarrow> r = n_objs s \<and> n_objs s' = Suc (n_objs s)"
  using add_loop_state [of "snd (new_dict s Map.empty)" "n_dicts s" PyNone bs]
  by (cases "add_loop (snd (new_dict s Map.empty)) (n_dicts s) PyNone bs")
     (auto simp: add_builders_def new_dict_def new_Builder_def split: sum.splits)

lemma frame_tree_connect_layer:
  assumes ok: "fn_ok fn name"
  shows "frame s (snd (tree_connect_layer nm sz fn name bias bn s brs))"
proof -
  obtain r1 s1 where 1: "iter_branches (connect_weights nm sz None None) s brs = (r1, s1)"
    by (cases "iter_branches (connect_weights nm sz None None) s brs")
  have f1: "frame s s1"
    using frame_iter(2) [of "connect_weights nm sz None None" s brs] 1
    by (simp add: touches_frame frame_connect_weights)
  show ?thesis
  proof (cases r1)
    case (Inl e)
    then show ?thesis using 1 f1 by (simp add: tree_connect_layer_def)
  next
    case (Inr bs)
    obtain r2 s2 where 2: "add_builders s1 bs = (r2, s2)" by (cases "add_builders s1 bs")
    have f2: "frame s s2" using frame_add_builders [of s1 bs] 2 f1 frame_trans by auto
    show ?thesis
    proof (cases r2)
      case (Inl e)
      then show ?thesis using 1 Inr 2 f2 by (simp add: tree_connect_layer_def)
    next
      case r2: (Inr b)
      from add_builders_res [OF 2 [unfolded r2]] frame_n_objs [OF f1]
      have b: "n_objs s \<le> b" "b < n_objs s2" by auto
      obtain r3 s3 where 3: "(if bias then connect_bias nm None bn s2 b else (Inr b, s2)) = (r3, s3)"
        by (cases "(if bias then connect_bias nm None bn s2 b else (Inr b, s2))")
      have f3: "frame s s3"
        using 3 f2 frame_connect_bias [of s2 nm None bn b] frame_trans
        by (auto split: if_splits)
      show ?thesis
      proof (cases r3)
        case (Inl e)
        then show ?thesis using 1 Inr 2 r2 3 f3 by (simp add: tree_connect_layer_def)
      next
        case r3: (Inr b2)
        have "n_objs s \<le> b2"
          using 3 r3 b connect_bias_res [of nm None bn s2 b b2 s3] by (auto split: if_splits)
        then show ?thesis using 1 Inr 2 r2 3 r3 f3 ok
          by (simp add: tree_connect_layer_def frame_apply_fn)
      qed
    qed
  qed
qed

lemma snd_returning: "snd (returning f r) = snd r"
  by (auto simp: returning_def split: prod.splits sum.splits)

lemma fst_returning_Inr: "fst (returning f r) = Inr y \<longleftrightarrow> (\<exists>x. fst r = Inr x \<and> y = f x)"
  by (auto simp: returning_def split: prod.splits sum.splits)

lemma frame_call_on: "call_ok c \<Longrightarrow> frame s (snd (call_on nm c s b))"
  by (cases c)
     (simp_all add: snd_returning frame_connect_weights frame_connect_bias frame_connect_layer
        frame_map frame_then frame_branch frame_leafs)

lemma frame_run_step: "step_ok st \<Longrightarrow> frame s (snd (run_step nm st s))"
  by (cases st)
     (simp_all add: snd_returning frame_call_on frame_tree_connect_layer frame_builders
        frame_tensors)

lemma frame_run: "\<forall>st\<in>set prog. step_ok st \<Longrightarrow> frame s (run nm prog s)"
proof (induction prog arbitrary: s)
  case Nil
  show ?case by (simp add: frame_refl)
next
  case (Cons st prog)
  have "frame s (snd (run_step nm st s))" using Cons.prems by (simp add: frame_run_step)
  moreover have "frame (snd (run_step nm st s)) (run nm prog (snd (run_step nm st s)))"
    using Cons by simp
  ultimately show ?case using frame_trans by simp
qed

lemma then_res:
  assumes "returns_own fn" and "then' fn s b = (Inr r, s')"
  shows "n_objs s \<le> r"
proof -
  from assms(2) have "fn (snd (copy s b)) (n_objs s) = (Inr r, s')"
    by (simp add: then'_def immutable_def copy_eq)
  with assms(1) have "r = n_objs s \<or> n_objs (snd (copy s b)) \<le> r"
    unfolding returns_own_def by blast
  then show ?thesis by (auto simp: copy_eq)
qed

section \<open>The receiver after a call\<close>

text \<open>
  C3, as the code has it. For every Builder of the store and every public call on it
  (\<open>connect_weights\<close>, \<open>connect_bias\<close>, \<open>connect_layer\<close>, \<open>map\<close>, \<open>then\<close>, \<open>branch\<close>,
  \<open>_leafs\<close>), whether the call returns or raises: the receiver's value and mapping are
  afterwards what they were, under the proviso that the function passed with the call, if
  any, is confined (the \<open>fn\<close> of \<open>map\<close> and the activation of \<open>connect_layer\<close> write only to
  objects they create; the callback of \<open>then\<close> or \<open>branch\<close> writes only to the copy it is
  given, to that copy's dictionary and to objects it creates); and a Builder returned is
  an object created during the call, so not the receiver, under the only proviso that the
  callback of \<open>then\<close> returns the copy it is given or a Builder created during the call;
  the Builder that \<open>_leafs\<close> yields is such a new object too.
\<close>

theorem call_leaves_receiver:
  assumes "allocated s b"
  shows "(call_ok c \<longrightarrow>
            tensor_of (snd (call_on nm c s b)) b = tensor_of s b
          \<and> vars_of (snd (call_on nm c s b)) b = vars_of s b)
     \<and> (call_returns_own c \<longrightarrow>
          (\<forall>r. fst (call_on nm c s b) = Inr (Node r) \<longrightarrow> r \<noteq> b \<and> n_objs s \<le> r))
     \<and> (\<forall>rs. fst (call_on nm c s b) = Inr (Nodes rs) \<longrightarrow>
          (\<forall>r\<in>set rs. r \<noteq> b \<and> n_objs s \<le> r))"
proof (intro conjI impI)
  assume ok: "call_ok c"
  have "content (snd (call_on nm c s b)) b = content s b"
    using frame_call_on [OF ok] assms by (rule frame_content)
  then show "tensor_of (snd (call_on nm c s b)) b = tensor_of s b"
    and "vars_of (snd (call_on nm c s b)) b = vars_of s b"
    by (simp_all add: content_def)
next
  assume own: "call_returns_own c"
  have 2: "n_objs s \<le> r" if "fst (call_on nm c s b) = Inr (Node r)" for r
  proof (cases c)
    case (ConnectWeights sz name wn)
    with that show ?thesis
      using connect_weights_res [of nm sz name wn s b r]
      by (cases "connect_weights nm sz name wn s b") (auto simp: fst_returning_Inr)
  next
    case (ConnectBias name bn)
    with that show ?thesis
      using connect_bias_res [of nm name bn s b r]
      by (cases "connect_bias nm name bn s b") (auto simp: fst_returning_Inr)
  next
    case (ConnectLayer sz fn name wn bias bn)
    with that show ?thesis
      using connect_layer_res [of nm sz fn name wn bias bn s b r]
      by (cases "connect_layer nm sz fn name wn bias bn s b") (auto simp: fst_returning_Inr)
  next
    case (Map fn)
    with that show ?thesis
      using map_res [of fn s b r]
      by (cases "map' fn s b") (auto simp: fst_returning_Inr)
  next
    case (Then fn)
    with that own show ?thesis
      using then_res [of fn s b r]
      by (cases "then' fn s b") (auto simp: fst_returning_Inr)
  next
    case (Branch fn)
    with that show ?thesis by (auto simp: fst_returning_Inr)
  next
    case Leafs
    with that show ?thesis by (auto simp: fst_returning_Inr)
  qed
  from 2 assms show "\<forall>r. fst (call_on nm c s b) = Inr (Node r) \<longrightarrow> r \<noteq> b \<and> n_objs s \<le> r"
    by (auto simp: allocated_def)
next
  have "rs = [n_objs s]" if "fst (call_on nm c s b) = Inr (Nodes rs)" for rs
    using that by (cases c) (auto simp: fst_returning_Inr leafs_def copy_eq)
  with assms show "\<forall>rs. fst (call_on nm c s b) = Inr (Nodes rs) \<longrightarrow>
          (\<forall>r\<in>set rs. r \<noteq> b \<and> n_objs s \<le> r)"
    by (auto simp: allocated_def)
qed

lemma two_builders_eq:
  "two_builders =
     init_state\<lparr> objs := (objs init_state)
                   (0 := \<lparr> tensor = Tensor x_8, variables = 0 \<rparr>,
                    Suc 0 := \<lparr> tensor = Tensor x_5, variables = 0 \<rparr>),
                 n_objs := 2 \<rparr>"
  by (simp add: two_builders_def builder_def new_Builder_def default_variables_def
      init_state_def numeral_2_eq_2)

lemma own_write_confined: "confined own_write"
  by (auto simp: confined_def touches_def own_write_def set_item_def Let_def)

lemma own_write_returns_own: "returns_own own_write"
  by (auto simp: returns_own_def own_write_def)

lemma framework_fn_confined: "confined_fn (\<lambda>s v. framework_fn g s v name)"
  by (auto simp: confined_fn_def framework_fn_def frame_def split: prod.splits)

lemma softmax_ok: "fn_ok (Some softmax) name"
  by (simp add: softmax_def of_value_def framework_fn_confined)

theorem call_leaves_receiver_witness:
  "allocated (one_builder x_5) 0 \<and> call_ok (Then own_write) \<and> call_returns_own (Then own_write)
   \<and> tensor_of (snd (call_on example_namer (Then own_write) (one_builder x_5) 0)) 0 = Tensor x_5
   \<and> vars_of (snd (call_on example_namer (Then own_write) (one_builder x_5) 0)) 0 = Map.empty
   \<and> fst (call_on example_namer (Then own_write) (one_builder x_5) 0) = Inr (Node 1)
   \<and> vars_of (snd (call_on example_namer (Then own_write) (one_builder x_5) 0)) 1 ''k''
        = Some k_var"
proof -
  have h: "allocated (one_builder x_5) 0"
    by (simp add: allocated_def one_builder_eq init_state_def)
  have ok: "call_ok (Then own_write)" "call_returns_own (Then own_write)"
    by (simp_all add: own_write_confined own_write_returns_own)
  have c: "tensor_of (one_builder x_5) 0 = Tensor x_5" "vars_of (one_builder x_5) 0 = Map.empty"
    by (simp_all add: tensor_of_def vars_of_def one_builder_eq init_state_def)
  have r: "fst (call_on example_namer (Then own_write) (one_builder x_5) 0) = Inr (Node 1)"
    "vars_of (snd (call_on example_namer (Then own_write) (one_builder x_5) 0)) 1 ''k''
        = Some k_var"
    by (simp_all add: returning_def then'_def immutable_def copy_eq own_write_def set_item_def
        one_builder_eq init_state_def vars_of_def)
  show ?thesis
    using call_leaves_receiver [OF h, of "Then own_write" example_namer] h ok c r
    by simp
qed

text \<open>With a callback that returns the Builder its closure holds and writes into that
  Builder's mapping, \<open>then\<close> returns the receiver itself, and the receiver's mapping has
  changed; and \<open>map\<close> with a function that writes into the receiver's mapping through its
  closure changes the receiver's mapping too.\<close>

theorem then_returns_receiver:
  "fst (call_on example_namer (Then captured_write) (one_builder x_5) 0) = Inr (Node 0)
   \<and> vars_of (one_builder x_5) 0 ''k'' = None
   \<and> vars_of (snd (call_on example_namer (Then captured_write) (one_builder x_5) 0)) 0 ''k''
        = Some k_var
   \<and> vars_of (snd (call_on example_namer (Map captured_map) (one_builder x_5) 0)) 0 ''k''
        = Some k_var"
  by (simp add: returning_def then'_def map'_def map_body_def immutable_def copy_eq
      captured_write_def captured_map_def set_item_def set_tensor_def one_builder_eq init_state_def
      vars_of_def)

section \<open>Two Builders sharing the default dictionary\<close>

text \<open>
  C10, as the code has it. Two Builders made by \<open>builder()\<close> are distinct objects whose
  \<open>variables\<close> attribute is the same dictionary, the default argument of \<open>__init__\<close>.
  Whatever sequence of public calls is run afterwards (on the first Builder, on Builders
  and trees made from it, or on any other), the mapping of the second is what it was,
  under the proviso that every function passed with a call is confined: the \<open>fn\<close> of
  \<open>map\<close> and the activations of both \<open>connect_layer\<close> methods write only to objects they
  create, and the callbacks of \<open>then\<close> and \<open>branch\<close> write only to the copy they are
  given, to that copy's dictionary and to objects they create.
\<close>

theorem builders_keep_their_mappings:
  assumes "0 < n_dicts s0" and "builder s0 t1 = (b1, s1)" and "builder s1 t2 = (b2, s2)"
    and "\<forall>st\<in>set prog. step_ok st"
  shows "b1 \<noteq> b2
     \<and> variables (objs s2 b1) = default_variables \<and> variables (objs s2 b2) = default_variables
     \<and> vars_of (run nm prog s2) b2 = vars_of s2 b2"
proof -
  from assms(2,3) have e: "b1 = n_objs s0" "b2 = Suc (n_objs s0)"
    "variables (objs s2 b1) = default_variables" "variables (objs s2 b2) = default_variables"
    "n_objs s2 = Suc (Suc (n_objs s0))" "n_dicts s2 = n_dicts s0"
    by (auto simp: builder_def new_Builder_def)
  then have "allocated s2 b2" using assms(1) by (simp add: allocated_def default_variables_def)
  with frame_run [OF assms(4), of s2 nm] have "content (run nm prog s2) b2 = content s2 b2"
    by (rule frame_content)
  then show ?thesis using e by (simp add: content_def)
qed

theorem builders_keep_their_mappings_witness:
  "0 < n_dicts init_state \<and> builder init_state (Tensor x_8) = (0, one_builder x_8)
   \<and> builder (one_builder x_8) (Tensor x_5) = (1, two_builders)
   \<and> step_ok (On 0 (ConnectLayer 3 (Some softmax) None None True None))
   \<and> step_ok (On 0 (Then own_write))
   \<and> vars_of (run example_namer
                 [On 0 (ConnectLayer 3 (Some softmax) None None True None), On 0 (Then own_write)]
                 two_builders) 1 = Map.empty"
proof -
  have 1: "0 < n_dicts init_state" by (simp add: init_state_def)
  have 2: "builder init_state (Tensor x_8) = (0, one_builder x_8)"
    by (simp add: one_builder_def builder_def new_Builder_def init_state_def)
  have 3: "builder (one_builder x_8) (Tensor x_5) = (1, two_builders)"
    by (simp add: two_builders_def one_builder_def builder_def new_Builder_def init_state_def)
  have ok: "step_ok (On 0 (ConnectLayer 3 (Some softmax) None None True None))"
    "step_ok (On 0 (Then own_write))"
    using softmax_ok [of None] own_write_confined by simp_all
  have 4: "\<forall>st\<in>set [On 0 (ConnectLayer 3 (Some softmax) None None True None),
                     On 0 (Then own_write)]. step_ok st"
    using ok by simp
  have 5: "vars_of two_builders 1 = Map.empty"
    by (simp add: vars_of_def two_builders_eq init_state_def)
  show ?thesis
    using builders_keep_their_mappings [OF 1 2 3 4, of example_namer] 1 2 3 5 ok
    by simp
qed

text \<open>\<open>b1.then(fn)\<close>, with a callback that writes into \<open>b1.variables\<close> through its closure,
  changes the mapping of \<open>b2\<close>: the two share the default dictionary. So does \<open>b1.map(fn)\<close>
  with such a function.\<close>

theorem then_writes_shared_default:
  "variables (objs two_builders 0) = variables (objs two_builders 1)
   \<and> vars_of two_builders 1 ''k'' = None
   \<and> vars_of (run example_namer [On 0 (Then captured_write)] two_builders) 1 ''k'' = Some k_var
   \<and> vars_of (run example_namer [On 0 (Map captured_map)] two_builders) 1 ''k'' = Some k_var"
  by (simp add: returning_def then'_def map'_def map_body_def immutable_def copy_eq
      captured_write_def captured_map_def set_item_def set_tensor_def two_builders_eq init_state_def
      vars_of_def)

section \<open>What the calls show\<close>

lemma observe_body_weights:
  "observe (connect_weights_body nm sz name wn s c) = weights_on nm sz name wn (graph s) (content s c)"
  by (auto simp: observe_def connect_weights_body_def weights_on_def content_def tensor_of_def
      vars_of_def tf_Variable_def Let_def set_item_def set_tensor_def
      split: sum.splits pyval.splits)

lemma observe_body_bias:
  "observe (connect_bias_body nm name bn s c) = bias_on nm name bn (graph s) (content s c)"
  by (auto simp: observe_def connect_bias_body_def bias_on_def content_def tensor_of_def
      vars_of_def tf_Variable_def Let_def set_item_def set_tensor_def
      split: sum.splits pyval.splits)

lemma observe_immutable:
  assumes "\<And>s c. observe (meth s c) = F (graph s) (content s c)"
  shows "observe (immutable meth s b) = F (graph s) (content s b)"
proof -
  obtain c s1 where c: "copy s b = (c, s1)" by (cases "copy s b")
  from copy_content [OF c] have "content s1 c = content s b" "graph s1 = graph s" by auto
  with assms [of s1 c] c show ?thesis by (simp add: immutable_def)
qed

lemma observe_connect_weights:
  "observe (connect_weights nm sz name wn s b) = weights_on nm sz name wn (graph s) (content s b)"
  unfolding connect_weights_def by (rule observe_immutable) (rule observe_body_weights)

lemma observe_connect_bias:
  "observe (connect_bias nm name bn s b) = bias_on nm name bn (graph s) (content s b)"
  unfolding connect_bias_def by (rule observe_immutable) (rule observe_body_bias)

lemma observe_apply_fn:
  "observe (apply_fn (map_option framework_fn fn) name s b) = fn_on fn name (graph s) (content s b)"
  by (auto simp: observe_def apply_fn_def fn_on_def framework_fn_def content_def tensor_of_def
      vars_of_def set_tensor_def split: option.splits sum.splits prod.splits)

lemma observe_map_body:
  "observe (map_body (\<lambda>s t. framework_fn f s t name) s c)
     = fn_on (Some f) name (graph s) (content s c)"
  by (auto simp: observe_def map_body_def fn_on_def framework_fn_def content_def tensor_of_def
      vars_of_def set_tensor_def split: option.splits sum.splits prod.splits)

lemma observe_map:
  "observe (map' (\<lambda>s t. framework_fn f s t name) s b)
     = fn_on (Some f) name (graph s) (content s b)"
  unfolding map'_def by (rule observe_immutable) (rule observe_map_body)

lemma observe_Inl: "observe (Inl e, s) = (Inl e, graph s)"
  by (simp add: observe_def)

lemma observe_Inr: "observe (Inr b, s) = (Inr (content s b), graph s)"
  by (simp add: observe_def)

lemma observe_layer_body:
  "observe (connect_layer_body nm sz (map_option framework_fn fn) name wn bias bn s c)
     = layer_on nm sz fn name wn bias bn (graph s) (content s c)"
proof -
  obtain r1 s1 where 1: "connect_weights nm sz None wn s c = (r1, s1)"
    by (cases "connect_weights nm sz None wn s c")
  have o1: "observe (r1, s1) = weights_on nm sz None wn (graph s) (content s c)"
    using observe_connect_weights [of nm sz None wn s c] 1 by simp
  show ?thesis
  proof (cases r1)
    case (Inl e)
    then show ?thesis using 1 o1 [symmetric]
      by (simp add: connect_layer_body_def layer_on_def observe_Inl)
  next
    case (Inr b1)
    obtain r2 s2 where 2: "(if bias then connect_bias nm None bn s1 b1 else (Inr b1, s1)) = (r2, s2)"
      by (cases "(if bias then connect_bias nm None bn s1 b1 else (Inr b1, s1))")
    have o2: "observe (r2, s2)
        = (if bias then bias_on nm None bn (graph s1) (content s1 b1) else (Inr (content s1 b1), graph s1))"
      using 2 observe_connect_bias [of nm None bn s1 b1] by (auto simp: observe_Inr split: if_splits)
    show ?thesis
    proof (cases r2)
      case (Inl e)
      then show ?thesis using 1 Inr 2 o1 [symmetric] o2 [symmetric]
        by (simp add: connect_layer_body_def layer_on_def observe_Inl observe_Inr)
    next
      case r2: (Inr b2)
      then show ?thesis using 1 Inr 2 o1 [symmetric] o2 [symmetric]
        by (simp add: connect_layer_body_def layer_on_def observe_Inl observe_Inr observe_apply_fn)
    qed
  qed
qed

lemma observe_connect_layer:
  "observe (connect_layer nm sz (map_option framework_fn fn) name wn bias bn s b)
     = layer_on nm sz fn name wn bias bn (graph s) (content s b)"
  unfolding connect_layer_def by (rule observe_immutable) (rule observe_layer_body)

lemma observe_composed:
  "observe (connect_layer_composed nm sz (map_option framework_fn fn) name wn bias bn s b)
     = layer_on nm sz fn name wn bias bn (graph s) (content s b)"
proof -
  obtain r1 s1 where 1: "connect_weights nm sz None wn s b = (r1, s1)"
    by (cases "connect_weights nm sz None wn s b")
  have o1: "observe (r1, s1) = weights_on nm sz None wn (graph s) (content s b)"
    using observe_connect_weights [of nm sz None wn s b] 1 by simp
  show ?thesis
  proof (cases r1)
    case (Inl e)
    then show ?thesis using 1 o1 [symmetric]
      by (simp add: connect_layer_composed_def layer_on_def observe_Inl)
  next
    case (Inr b1)
    obtain r2 s2 where 2: "(if bias then connect_bias nm None bn s1 b1 else (Inr b1, s1)) = (r2, s2)"
      by (cases "(if bias then connect_bias nm None bn s1 b1 else (Inr b1, s1))")
    have o2: "observe (r2, s2)
        = (if bias then bias_on nm None bn (graph s1) (content s1 b1) else (Inr (content s1 b1), graph s1))"
      using 2 observe_connect_bias [of nm None bn s1 b1] by (auto simp: observe_Inr split: if_splits)
    show ?thesis
    proof (cases r2)
      case (Inl e)
      then show ?thesis using 1 Inr 2 o1 [symmetric] o2 [symmetric]
        by (simp add: connect_layer_composed_def layer_on_def observe_Inl observe_Inr)
    next
      case r2: (Inr b2)
      show ?thesis
      proof (cases fn)
        case None
        then show ?thesis using r2 1 Inr 2 o1 [symmetric] o2 [symmetric]
          by (simp add: connect_layer_composed_def layer_on_def observe_Inl observe_Inr fn_on_def)
      next
        case (Some f)
        then show ?thesis using r2 1 Inr 2 o1 [symmetric] o2 [symmetric]
          by (simp add: connect_layer_composed_def layer_on_def observe_Inl observe_Inr observe_map)
      qed
    qed
  qed
qed

section \<open>connect_layer as a composition\<close>

text \<open>
  C5. \<open>connect_layer(size, fn, name, weights_name, bias, bias_name)\<close> shows what the
  separate calls show: \<open>connect_weights(size, weights_name=weights_name)\<close>, then
  \<open>connect_bias(bias_name=bias_name)\<close> when \<open>bias\<close> is true, then, when \<open>fn\<close> is given,
  \<open>map\<close> applying \<open>fn\<close> to the value with \<open>name\<close>. Both raise the same error or return
  Builders with the same value and the same mapping, and both leave the same variables
  in the graph. The activation is any function of the value, the name and the graph,
  which may raise and may add variables to the graph.
\<close>

theorem connect_layer_is_composition:
  "observe (connect_layer nm sz (map_option framework_fn fn) name weights_name bias bias_name s b)
     = observe (connect_layer_composed nm sz (map_option framework_fn fn) name weights_name bias
                  bias_name s b)"
  by (simp add: observe_connect_layer observe_composed)

section \<open>The parameters of a layer\<close>

lemma tf_add_bias:
  "get_shape y = [m, Some k] \<Longrightarrow>
   tf_add y (Var (Variable i [k] nme)) name = Inr (Add y (Var (Variable i [k] nme)) name)"
  by (simp add: tf_add_def broadcast_def)

lemma weights_on_2d:
  assumes "get_shape x = [m, Some n]"
  shows "weights_on nm sz name wn g (Tensor x, vs) =
     (Inr (Tensor (MatMul x (Var (Variable (length g) [n, sz] (nm g wn))) name),
           vs(if_else wn (nm g wn) \<mapsto> Variable (length g) [n, sz] (nm g wn))),
      g @ [Variable (length g) [n, sz] (nm g wn)])"
  using assms by (simp add: weights_on_def int_shape_1_2d tf_matmul_2d Let_def)

lemma bias_on_2d:
  assumes "get_shape y = [m, Some k]"
  shows "bias_on nm name bn g (Tensor y, vs) =
     (Inr (Tensor (Add y (Var (Variable (length g) [k] (nm g bn))) name),
           vs(if_else bn (nm g bn) \<mapsto> Variable (length g) [k] (nm g bn))),
      g @ [Variable (length g) [k] (nm g bn)])"
  using assms by (simp add: bias_on_def int_shape_1_2d tf_add_bias Let_def)







section \<open>Fan-in\<close>

lemma connect_weights_alloc:
  "connect_weights nm sz name wn s b = (Inr r, s') \<Longrightarrow> allocated s' r"
  by (auto simp: connect_weights_def immutable_def copy_eq connect_weights_body_def
      tf_Variable_def Let_def set_item_def set_tensor_def allocated_def
      split: sum.splits pyval.splits)

lemma width_2d: "get_shape x = [m, Some n] \<Longrightarrow> width x = n"
  by (simp add: width_def)

lemma leaf_step_2d:
  assumes "get_shape x = [m, Some n]"
  shows "leaf_step nm sz g (Tensor x, vs) =
     ((Tensor (MatMul x (Var (Variable (length g) [width x, sz] (nm g None))) None),
       vs(nm g None \<mapsto> Variable (length g) [width x, sz] (nm g None))),
      g @ [Variable (length g) [width x, sz] (nm g None)])"
  by (simp add: leaf_step_def weights_on_2d [OF assms] width_2d [OF assms])

lemma connect_weights_leaf:
  assumes "allocated s c" and "two_d (content s c)"
  shows "\<exists>r s'. connect_weights nm sz None None s c = (Inr r, s') \<and> touches s c s'
     \<and> allocated s' r \<and> (content s' r, graph s') = leaf_step nm sz (graph s) (content s c)"
proof -
  from assms(2) obtain x m n vs where c: "content s c = (Tensor x, vs)" "get_shape x = [m, Some n]"
    by (cases "content s c") (auto simp: two_d_def)
  obtain r0 s' where r: "connect_weights nm sz None None s c = (r0, s')"
    by (cases "connect_weights nm sz None None s c")
  have o: "observe (r0, s') = weights_on nm sz None None (graph s) (content s c)"
    using observe_connect_weights [of nm sz None None s c] r by simp
  then obtain r where r0: "r0 = Inr r"
    by (cases r0) (auto simp: c weights_on_2d [OF c(2)] observe_def)
  have "(content s' r, graph s') = leaf_step nm sz (graph s) (content s c)"
    using o [symmetric] r0 by (simp add: observe_Inr leaf_step_def)
  moreover have "touches s c s'"
    using frame_connect_weights [of s nm sz None None c] r by (simp add: touches_frame)
  moreover have "allocated s' r" using connect_weights_alloc r r0 by blast
  ultimately show ?thesis using r r0 by blast
qed

lemma thread_leaf:
  assumes "\<forall>x\<in>set xs. \<exists>m n. get_shape x = [m, Some n]" and "length vss = length xs"
  shows "thread (leaf_step nm sz) g (zip (map Tensor xs) vss) =
     (zip (map (\<lambda>(x, w). Tensor (MatMul x (Var w) None)) (zip xs (leaf_weights nm sz g xs)))
          (map (\<lambda>(vs, w). vs(var_name w \<mapsto> w)) (zip vss (leaf_weights nm sz g xs))),
      g @ leaf_weights nm sz g xs)"
  using assms
proof (induction xs arbitrary: g vss)
  case Nil
  then show ?case by simp
next
  case (Cons x xs)
  then obtain vs vss' where v: "vss = vs # vss'" "length vss' = length xs"
    by (cases vss) auto
  from Cons.prems(1) obtain m n where x: "get_shape x = [m, Some n]" by auto
  have ih: "thread (leaf_step nm sz) g' (zip (map Tensor xs) vss') =
     (zip (map (\<lambda>(x, w). Tensor (MatMul x (Var w) None)) (zip xs (leaf_weights nm sz g' xs)))
          (map (\<lambda>(vs, w). vs(var_name w \<mapsto> w)) (zip vss' (leaf_weights nm sz g' xs))),
      g' @ leaf_weights nm sz g' xs)" for g'
    by (rule Cons.IH) (use Cons.prems(1) v(2) in auto)
  show ?case
    by (simp add: v leaf_step_2d [OF x] ih Let_def del: fun_upd_apply)
qed

lemma add_loop_spec:
  assumes "\<forall>b\<in>set bs. variables (objs s b) \<noteq> d"
  shows "py_sum t (map (tensor_of s) bs) = Inr t' \<Longrightarrow>
     add_loop s d t bs =
       (Inr t', s\<lparr> dicts := (dicts s)(d := foldl (++) (dicts s d) (map (vars_of s) bs)) \<rparr>)"
  using assms
proof (induction bs arbitrary: s t)
  case Nil
  then show ?case by simp
next
  case (Cons b bs)
  from Cons.prems(1) obtain t1 where
    t1: "(if t = PyNone then Inr (tensor_of s b) else py_add t (tensor_of s b)) = Inr t1"
    and rest: "py_sum t1 (map (tensor_of s) bs) = Inr t'"
    by (auto split: sum.splits)
  define s1 where "s1 = dict_update s d (dicts s (variables (objs s b)))"
  have same: "map (tensor_of s1) bs = map (tensor_of s) bs" "map (vars_of s1) bs = map (vars_of s) bs"
    using Cons.prems(2) by (auto simp: s1_def dict_update_def tensor_of_def vars_of_def)
  have d1: "\<forall>b\<in>set bs. variables (objs s1 b) \<noteq> d"
    using Cons.prems(2) by (simp add: s1_def dict_update_def)
  have e1: "dicts s1 d = dicts s d ++ vars_of s b"
    by (simp add: s1_def dict_update_def vars_of_def)
  have e2: "s1\<lparr> dicts := (dicts s1)(d := X) \<rparr> = s\<lparr> dicts := (dicts s)(d := X) \<rparr>" for X
    by (simp add: s1_def dict_update_def)
  have "py_sum t1 (map (tensor_of s1) bs) = Inr t'" unfolding same(1) by (rule rest)
  from Cons.IH [OF this d1]
  have ih: "add_loop s1 d t1 bs =
       (Inr t', s\<lparr> dicts := (dicts s)(d := foldl (++) (dicts s d ++ vars_of s b) (map (vars_of s) bs)) \<rparr>)"
    unfolding same(2) e1 e2 .
  have step: "add_loop s d t (b # bs) = add_loop s1 d t1 bs"
    using t1 [unfolded tensor_of_def] unfolding s1_def by (auto split: if_splits)
  show ?case unfolding step ih by (simp add: fun_upd_def)
qed

lemma py_sum_tensors:
  "py_sum (Tensor a) (map Tensor ys) = (case sum_tensors a ys of Inl e \<Rightarrow> Inl e | Inr z \<Rightarrow> Inr (Tensor z))"
  by (induction ys arbitrary: a) (auto split: sum.splits)

lemma broadcast_rows:
  "broadcast [a, Some k] [b, Some k] = Some sh \<Longrightarrow> \<exists>c. sh = [c, Some k]"
  by (auto simp: broadcast_def split: option.splits)

lemma sum_tensors_shape:
  "sum_tensors a ys = Inr t \<Longrightarrow> \<exists>m. get_shape a = [m, Some k] \<Longrightarrow>
   \<forall>y\<in>set ys. \<exists>m. get_shape y = [m, Some k] \<Longrightarrow> \<exists>m. get_shape t = [m, Some k]"
proof (induction ys arbitrary: a)
  case Nil
  then show ?case by simp
next
  case (Cons y ys)
  from Cons.prems(1) obtain z where z: "tf_add a y None = Inr z" "sum_tensors z ys = Inr t"
    by (auto split: sum.splits)
  from Cons.prems(2,3) obtain m m' where s: "get_shape a = [m, Some k]" "get_shape y = [m', Some k]"
    by auto
  from z(1) obtain sh where sh: "broadcast (get_shape a) (get_shape y) = Some sh" "z = Add a y None"
    by (auto simp: tf_add_def split: option.splits)
  with s broadcast_rows [of m k m' sh] have "\<exists>c. get_shape z = [c, Some k]" by auto
  with Cons.IH [OF z(2)] Cons.prems(3) show ?case by simp
qed

lemma length_leaf_weights: "length (leaf_weights nm sz g xs) = length xs"
  by (induction xs arbitrary: g) (auto simp: Let_def)

lemma add_builders_spec:
  assumes al: "\<forall>r\<in>set rs. allocated s r"
    and sum: "py_sum PyNone (map (tensor_of s) rs) = Inr t"
  shows "\<exists>s'. add_builders s rs = (Inr (n_objs s), s') \<and> allocated s' (n_objs s)
     \<and> content s' (n_objs s) = (t, foldl (++) Map.empty (map (vars_of s) rs))
     \<and> graph s' = graph s"
proof -
  define s1 where "s1 = snd (new_dict s Map.empty)"
  have s1: "new_dict s Map.empty = (n_dicts s, s1)" "objs s1 = objs s" "n_objs s1 = n_objs s"
    "dicts s1 (n_dicts s) = Map.empty" "graph s1 = graph s" "n_dicts s1 = Suc (n_dicts s)"
    by (simp_all add: s1_def new_dict_def)
  have same: "map (tensor_of s1) rs = map (tensor_of s) rs" "map (vars_of s1) rs = map (vars_of s) rs"
    using al by (auto simp: s1_def new_dict_def tensor_of_def vars_of_def allocated_def)
  have d: "\<forall>b\<in>set rs. variables (objs s1 b) \<noteq> n_dicts s"
    using al by (auto simp: s1(2) allocated_def)
  have "py_sum PyNone (map (tensor_of s1) rs) = Inr t" unfolding same(1) by (rule sum)
  from add_loop_spec [OF d this]
  have l: "add_loop s1 (n_dicts s) PyNone rs =
      (Inr t, s1\<lparr> dicts := (dicts s1)(n_dicts s := foldl (++) Map.empty (map (vars_of s) rs)) \<rparr>)"
    unfolding same(2) s1(4) .
  show ?thesis
    by (simp add: add_builders_def s1(1) l new_Builder_def s1 allocated_def content_def
        tensor_of_def vars_of_def)
qed

lemma add_loop_fails:
  assumes "\<forall>b\<in>set bs. variables (objs s b) \<noteq> d"
  shows "py_sum t (map (tensor_of s) bs) = Inl e \<Longrightarrow> fst (add_loop s d t bs) = Inl e"
  using assms
proof (induction bs arbitrary: s t)
  case Nil
  then show ?case by simp
next
  case (Cons b bs)
  show ?case
  proof (cases "if t = PyNone then Inr (tensor_of s b) else py_add t (tensor_of s b)")
    case (Inl e')
    with Cons.prems(1) have "e' = e" by (auto split: if_splits)
    with Inl show ?thesis by (auto simp: tensor_of_def split: if_splits)
  next
    case (Inr t1)
    with Cons.prems(1) have rest: "py_sum t1 (map (tensor_of s) bs) = Inl e"
      by (auto split: if_splits)
    define s1 where "s1 = dict_update s d (dicts s (variables (objs s b)))"
    have same: "map (tensor_of s1) bs = map (tensor_of s) bs"
      by (auto simp: s1_def dict_update_def tensor_of_def)
    have d1: "\<forall>b\<in>set bs. variables (objs s1 b) \<noteq> d"
      using Cons.prems(2) by (simp add: s1_def dict_update_def)
    have "py_sum t1 (map (tensor_of s1) bs) = Inl e" unfolding same by (rule rest)
    from Cons.IH [OF this d1] have ih: "fst (add_loop s1 d t1 bs) = Inl e" .
    have step: "add_loop s d t (b # bs) = add_loop s1 d t1 bs"
      using Inr [unfolded tensor_of_def] unfolding s1_def by (auto split: if_splits)
    show ?thesis unfolding step by (rule ih)
  qed
qed

lemma add_builders_fails:
  assumes al: "\<forall>r\<in>set rs. allocated s r"
    and sum: "py_sum PyNone (map (tensor_of s) rs) = Inl e"
  shows "\<exists>s'. add_builders s rs = (Inl e, s') \<and> graph s' = graph s"
proof -
  define s1 where "s1 = snd (new_dict s Map.empty)"
  have s1: "new_dict s Map.empty = (n_dicts s, s1)" "objs s1 = objs s" "graph s1 = graph s"
    by (simp_all add: s1_def new_dict_def)
  have same: "map (tensor_of s1) rs = map (tensor_of s) rs"
    by (auto simp: s1_def new_dict_def tensor_of_def)
  have d: "\<forall>b\<in>set rs. variables (objs s1 b) \<noteq> n_dicts s"
    using al by (auto simp: s1(2) allocated_def)
  have "py_sum PyNone (map (tensor_of s1) rs) = Inl e" unfolding same by (rule sum)
  from add_loop_fails [OF d this] have l: "fst (add_loop s1 (n_dicts s) PyNone rs) = Inl e" .
  have g: "graph (snd (add_loop s1 (n_dicts s) PyNone rs)) = graph s"
    using add_loop_state [of s1 "n_dicts s" PyNone rs] s1(3) by simp
  show ?thesis
    using l g
    by (cases "add_loop s1 (n_dicts s) PyNone rs") (simp add: add_builders_def s1(1))
qed

lemma map_content_zip:
  "map (content s) ls = zip (map (tensor_of s) ls) (map (vars_of s) ls)"
  by (induction ls) (auto simp: content_def)


text \<open>
  C8, as the code has it. Take a tree whose leaves are Builders of the store with 2-D
  values \<open>xs\<close>, of any widths, at least one leaf. \<open>connect_layer(size)\<close> on the tree
  creates one weight of shape \<open>[width, size]\<close> for each leaf, in leaf order, and no bias
  for a leaf. Then it adds the products of each leaf's value with its weight to a running
  sum, in leaf order, and the framework may refuse an addition (when the numbers of rows
  do not broadcast): in that case the call raises the framework's error, the weights
  having been created. When the framework accepts the additions, there is one new
  Builder whose value is that sum and whose mapping is the leaves' mappings, each with
  its weight, merged in leaf order, a later entry replacing an earlier one of the same
  name; with \<open>bias\<close> one variable of shape \<open>[size]\<close> is created after the weights, added
  to the sum and recorded; and the call returns what the last step,
  \<open>if fn: builder.tensor = fn(builder.tensor, name=name)\<close>, gives on that Builder: the
  Builder itself without an activation, and with one the Builder with the activation's
  result for value (or the activation's error).
\<close>

theorem tree_connect_layer_fan_in:
  assumes ls: "dfs (branches brs) = ls"
    and al: "\<forall>l\<in>set ls. allocated s l"
    and xs: "map (tensor_of s) ls = map Tensor xs"
    and sh: "\<forall>x\<in>set xs. \<exists>m n. get_shape x = [m, Some n]"
    and ys: "map (\<lambda>(x, w). MatMul x (Var w) None) (zip xs (leaf_weights nm sz (graph s) xs))
               = y # rest"
  shows "let ws = leaf_weights nm sz (graph s) xs;
             merged = foldl (++) Map.empty
                        (map (\<lambda>(l, w). (vars_of s l)(var_name w \<mapsto> w)) (zip ls ws));
             bv = Variable (length (graph s @ ws)) [sz] (nm (graph s @ ws) bias_name)
         in map var_shape ws = map (\<lambda>x. [width x, sz]) xs
          \<and> (case sum_tensors y rest of
                Inl e \<Rightarrow>
                  observe (tree_connect_layer nm sz fn name bias bias_name s brs)
                    = (Inl e, graph s @ ws)
              | Inr summed \<Rightarrow>
                  (\<exists>b' s'. tree_connect_layer nm sz fn name bias bias_name s brs
                             = apply_fn fn name s' b'
                     \<and> n_objs s \<le> b' \<and> frame s s'
                     \<and> graph s' = (if bias then graph s @ ws @ [bv] else graph s @ ws)
                     \<and> content s' b' =
                         (if bias
                          then (Tensor (Add summed (Var bv) None),
                                merged(if_else bias_name (var_name bv) \<mapsto> bv))
                          else (Tensor summed, merged))))"
proof -
  define ws where "ws = leaf_weights nm sz (graph s) xs"
  define merged where "merged = foldl (++) Map.empty
                        (map (\<lambda>(l, w). (vars_of s l)(var_name w \<mapsto> w)) (zip ls ws))"
  define bv where "bv = Variable (length (graph s @ ws)) [sz] (nm (graph s @ ws) bias_name)"
  have len: "length xs = length ls" using xs by (metis length_map)
  have lws: "length ws = length xs" by (simp add: ws_def length_leaf_weights)
  have shapes: "map var_shape (leaf_weights nm sz g xs) = map (\<lambda>x. [width x, sz]) xs" for g
    by (induction xs arbitrary: g) (auto simp: Let_def)
  have ls': "concat (map dfs brs) = ls" using ls by (simp add: branches_def)
  have two: "\<forall>b\<in>set (concat (map dfs brs)). allocated s b \<and> two_d (content s b)"
    unfolding ls'
  proof
    fix l assume l: "l \<in> set ls"
    then have "tensor_of s l \<in> set (map (tensor_of s) ls)" by simp
    then obtain x where "x \<in> set xs" "tensor_of s l = Tensor x" unfolding xs by auto
    with sh l al show "allocated s l \<and> two_d (content s l)"
      by (auto simp: two_d_def content_def)
  qed
  have "\<exists>rs s'. iter_branches (connect_weights nm sz None None) s brs = (Inr rs, s')
      \<and> frame s s' \<and> (\<forall>r\<in>set rs. allocated s' r)
      \<and> (map (content s') rs, graph s')
          = thread (leaf_step nm sz) (graph s) (map (content s) (concat (map dfs brs)))"
  proof (rule iter_thread(2) [where P = two_d])
    show "\<And>s c. allocated s c \<Longrightarrow> two_d (content s c) \<Longrightarrow>
        \<exists>r s'. connect_weights nm sz None None s c = (Inr r, s') \<and> touches s c s'
          \<and> allocated s' r \<and> (content s' r, graph s') = leaf_step nm sz (graph s) (content s c)"
      by (rule connect_weights_leaf)
    show "\<And>s s' r. allocated s r \<Longrightarrow> frame s s' \<Longrightarrow> allocated s' r \<and> content s' r = content s r"
      by (simp add: frame_allocated frame_content)
    show "\<forall>b\<in>set (concat (map dfs brs)). allocated s b \<and> two_d (content s b)" by (rule two)
  qed
  then have "\<exists>rs s'. iter_branches (connect_weights nm sz None None) s brs = (Inr rs, s')
      \<and> frame s s' \<and> (\<forall>r\<in>set rs. allocated s' r)
      \<and> (map (content s') rs, graph s')
          = thread (leaf_step nm sz) (graph s) (map (content s) ls)"
    unfolding ls' .
  then obtain rs s1 where it: "iter_branches (connect_weights nm sz None None) s brs = (Inr rs, s1)"
    and fr1: "frame s s1"
    and al1: "\<forall>r\<in>set rs. allocated s1 r"
    and th: "(map (content s1) rs, graph s1)
          = thread (leaf_step nm sz) (graph s) (map (content s) ls)"
    by blast
  have cz: "map (content s) ls = zip (map Tensor xs) (map (vars_of s) ls)"
    by (simp add: map_content_zip xs)
  have tl: "thread (leaf_step nm sz) (graph s) (zip (map Tensor xs) (map (vars_of s) ls)) =
     (zip (map (\<lambda>(x, w). Tensor (MatMul x (Var w) None)) (zip xs ws))
          (map (\<lambda>(vs, w). vs(var_name w \<mapsto> w)) (zip (map (vars_of s) ls) ws)),
      graph s @ ws)"
    unfolding ws_def by (rule thread_leaf) (use sh len in simp_all)
  from th have c1: "map (content s1) rs =
      zip (map (\<lambda>(x, w). Tensor (MatMul x (Var w) None)) (zip xs ws))
          (map (\<lambda>(vs, w). vs(var_name w \<mapsto> w)) (zip (map (vars_of s) ls) ws))"
    and g1: "graph s1 = graph s @ ws"
    unfolding cz tl by simp_all
  have t1: "map (tensor_of s1) rs = map (\<lambda>(x, w). Tensor (MatMul x (Var w) None)) (zip xs ws)"
  proof -
    have "map (tensor_of s1) rs = map fst (map (content s1) rs)"
      by (simp add: content_def comp_def)
    also have "\<dots> = map (\<lambda>(x, w). Tensor (MatMul x (Var w) None)) (zip xs ws)"
      unfolding c1 using len lws by simp
    finally show ?thesis .
  qed
  have v1: "map (vars_of s1) rs = map (\<lambda>(l, w). (vars_of s l)(var_name w \<mapsto> w)) (zip ls ws)"
  proof -
    have "map (vars_of s1) rs = map snd (map (content s1) rs)"
      by (simp add: content_def comp_def)
    also have "\<dots> = map (\<lambda>(vs, w). vs(var_name w \<mapsto> w)) (zip (map (vars_of s) ls) ws)"
      unfolding c1 using len lws by simp
    also have "\<dots> = map (\<lambda>(l, w). (vars_of s l)(var_name w \<mapsto> w)) (zip ls ws)"
      by (simp add: zip_map1 split_def del: fun_upd_apply)
    finally show ?thesis .
  qed
  have "map (\<lambda>(x, w). Tensor (MatMul x (Var w) None)) (zip xs ws)
      = map Tensor (map (\<lambda>(x, w). MatMul x (Var w) None) (zip xs ws))"
    by (simp add: split_def comp_def)
  then have t1': "map (tensor_of s1) rs = map Tensor (y # rest)"
    unfolding t1 ys [folded ws_def] .
  have shapes': "map var_shape ws = map (\<lambda>x. [width x, sz]) xs"
    using shapes [of "graph s"] by (simp add: ws_def)
  have "case sum_tensors y rest of
          Inl e \<Rightarrow>
            observe (tree_connect_layer nm sz fn name bias bias_name s brs) = (Inl e, graph s @ ws)
        | Inr summed \<Rightarrow>
            (\<exists>b' s'. tree_connect_layer nm sz fn name bias bias_name s brs = apply_fn fn name s' b'
               \<and> n_objs s \<le> b' \<and> frame s s'
               \<and> graph s' = (if bias then graph s @ ws @ [bv] else graph s @ ws)
               \<and> content s' b' =
                   (if bias
                    then (Tensor (Add summed (Var bv) None),
                          merged(if_else bias_name (var_name bv) \<mapsto> bv))
                    else (Tensor summed, merged)))"
  proof (cases "sum_tensors y rest")
    case (Inl e)
    have "py_sum PyNone (map (tensor_of s1) rs) = Inl e"
      unfolding t1' using Inl by (simp add: py_sum_tensors)
    from add_builders_fails [OF al1 this] obtain s2 where
      "add_builders s1 rs = (Inl e, s2)" "graph s2 = graph s @ ws"
      unfolding g1 by blast
    then show ?thesis using it Inl by (simp add: tree_connect_layer_def observe_Inl)
  next
    case sum: (Inr summed)
  have "py_sum PyNone (map (tensor_of s1) rs) = Inr (Tensor summed)"
    unfolding t1' using sum by (simp add: py_sum_tensors)
  from add_builders_spec [OF al1 this] obtain s2 where
    ab: "add_builders s1 rs = (Inr (n_objs s1), s2)"
    and c2: "content s2 (n_objs s1) = (Tensor summed, merged)"
    and g2: "graph s2 = graph s @ ws"
    unfolding v1 merged_def [symmetric] g1 by blast
  have ysh: "\<forall>y'\<in>set (y # rest). \<exists>m. get_shape y' = [m, Some sz]"
  proof
    fix y' assume "y' \<in> set (y # rest)"
    then obtain x w where "y' = MatMul x (Var w) None" "(x, w) \<in> set (zip xs ws)"
      unfolding ys [folded ws_def, symmetric] by auto
    moreover from this(2) obtain i where i: "i < length xs" "x = xs ! i" "w = ws ! i"
      by (auto simp: set_zip)
    moreover have "var_shape (ws ! i) = [width (xs ! i), sz]"
      using shapes [of "graph s"] i(1) lws unfolding ws_def [symmetric]
      by (metis length_map nth_map)
    moreover obtain m n where "get_shape (xs ! i) = [m, Some n]" using sh i(1) by fastforce
    ultimately show "\<exists>m. get_shape y' = [m, Some sz]" by simp
  qed
  then obtain m where tsh: "get_shape summed = [m, Some sz]"
    using sum_tensors_shape [OF sum, of sz] by auto
    have f2: "frame s s2"
      using fr1 frame_add_builders [of s1 rs] ab by (auto intro: frame_trans)
    have n1: "n_objs s \<le> n_objs s1" using fr1 by (rule frame_n_objs)
    have "\<exists>b' s'. tree_connect_layer nm sz fn name bias bias_name s brs = apply_fn fn name s' b'
        \<and> n_objs s \<le> b' \<and> frame s s'
        \<and> graph s' = (if bias then graph s @ ws @ [bv] else graph s @ ws)
        \<and> content s' b' =
            (if bias
             then (Tensor (Add summed (Var bv) None),
                   merged(if_else bias_name (var_name bv) \<mapsto> bv))
             else (Tensor summed, merged))"
    proof (cases bias)
      case False
      have "tree_connect_layer nm sz fn name bias bias_name s brs = apply_fn fn name s2 (n_objs s1)"
        using it ab False by (simp add: tree_connect_layer_def)
      with f2 n1 c2 g2 False show ?thesis by auto
    next
      case True
      obtain r3 s3 where 3: "connect_bias nm None bias_name s2 (n_objs s1) = (r3, s3)"
        by (cases "connect_bias nm None bias_name s2 (n_objs s1)")
      have "observe (r3, s3) = bias_on nm None bias_name (graph s2) (content s2 (n_objs s1))"
        using observe_connect_bias [of nm None bias_name s2 "n_objs s1"] 3 by simp
      then have o3: "observe (r3, s3) =
          (Inr (Tensor (Add summed (Var bv) None),
                merged(if_else bias_name (var_name bv) \<mapsto> bv)),
           graph s @ ws @ [bv])"
        unfolding c2 g2 bias_on_2d [OF tsh] by (simp add: bv_def del: fun_upd_apply)
      then obtain b3 where r3: "r3 = Inr b3" by (cases r3) (auto simp: observe_def)
      from o3 have c3: "content s3 b3 =
            (Tensor (Add summed (Var bv) None),
             merged(if_else bias_name (var_name bv) \<mapsto> bv))"
        and g3: "graph s3 = graph s @ ws @ [bv]"
        unfolding r3 observe_Inr by simp_all
      have f3: "frame s s3"
        using f2 frame_connect_bias [of s2 nm None bias_name "n_objs s1"] 3
        by (auto intro: frame_trans)
      have "b3 = n_objs s2" using connect_bias_res [OF 3 [unfolded r3]] by simp
      then have n3: "n_objs s \<le> b3" using frame_n_objs [OF f2] by simp
      have "tree_connect_layer nm sz fn name bias bias_name s brs = apply_fn fn name s3 b3"
        using it ab 3 r3 True by (simp add: tree_connect_layer_def)
      with f3 n3 c3 g3 True show ?thesis by auto
    qed
    then show ?thesis using sum by simp
  qed
  then show ?thesis
    unfolding Let_def ws_def [symmetric] merged_def [symmetric] bv_def [symmetric]
    using shapes' by (simp del: fun_upd_apply)
qed

theorem tree_connect_layer_fan_in_witness:
  "dfs (branches [Leaf 0, Leaf 1]) = [0, 1]
   \<and> allocated two_builders 0 \<and> allocated two_builders 1
   \<and> map (tensor_of two_builders) [0, 1] = map Tensor [x_8, x_5]
   \<and> get_shape x_8 = [None, Some 8] \<and> get_shape x_5 = [None, Some 5]
   \<and> leaf_weights example_namer 3 (graph two_builders) [x_8, x_5] = [w_a, w_b]
   \<and> sum_tensors y_a [y_b] = Inr (Add y_a y_b None)
   \<and> observe (tree_connect_layer example_namer 3 (Some softmax) (Some ''layer'') True None
                 two_builders [Leaf 0, Leaf 1])
       = (Inr (Tensor (Op ''softmax'' [Add (Add y_a y_b None) (Var bias_ab) None]
                        [None, Some 3] (Some ''layer'')),
               [''Variable_'' \<mapsto> w_a, ''Variable_I'' \<mapsto> w_b, ''Variable_II'' \<mapsto> bias_ab]),
          [w_a, w_b, bias_ab])"
proof -
  have g: "graph two_builders = []" "vars_of two_builders 0 = Map.empty"
    "vars_of two_builders (Suc 0) = Map.empty"
    by (simp_all add: two_builders_eq init_state_def vars_of_def)
  have 1: "dfs (branches [Leaf 0, Leaf 1]) = [0, 1]" by (simp add: branches_def)
  have a: "allocated two_builders 0" "allocated two_builders 1"
    by (simp_all add: allocated_def two_builders_eq init_state_def)
  have 2: "\<forall>l\<in>set [0, 1]. allocated two_builders l" using a by simp
  have 3: "map (tensor_of two_builders) [0, 1] = map Tensor [x_8, x_5]"
    by (simp add: tensor_of_def two_builders_eq)
  have s: "get_shape x_8 = [None, Some 8]" "get_shape x_5 = [None, Some 5]"
    by (simp_all add: x_8_def x_5_def)
  have 4: "\<forall>x\<in>set [x_8, x_5]. \<exists>m n. get_shape x = [m, Some n]" using s by simp
  have w: "leaf_weights example_namer 3 (graph two_builders) [x_8, x_5] = [w_a, w_b]"
    by (simp add: g width_def s example_namer_def w_a_def w_b_def Let_def)
  have 5: "map (\<lambda>(x, w). MatMul x (Var w) None)
             (zip [x_8, x_5] (leaf_weights example_namer 3 (graph two_builders) [x_8, x_5]))
           = y_a # [y_b]"
    unfolding w by (simp add: y_a_def y_b_def)
  have 6: "sum_tensors y_a [y_b] = Inr (Add y_a y_b None)"
    by (simp add: y_a_def y_b_def w_a_def w_b_def s tf_add_def broadcast_def)
  have w': "leaf_weights example_namer 3 [] [x_8, x_5] = [w_a, w_b]"
    using w unfolding g .
  note t = tree_connect_layer_fan_in [OF 1 2 3 4 5, where fn = "Some softmax"
      and name = "Some ''layer''" and bias = True and bias_name = None,
      unfolded g, unfolded w', unfolded Let_def, unfolded 6, THEN conjunct2]
  from t obtain b' s' where r:
    "tree_connect_layer example_namer 3 (Some softmax) (Some ''layer'') True None two_builders
       [Leaf 0, Leaf 1] = apply_fn (Some softmax) (Some ''layer'') s' b'"
    "graph s' = [w_a, w_b, bias_ab]"
    "content s' b' =
       (Tensor (Add (Add y_a y_b None) (Var bias_ab) None),
        [''Variable_'' \<mapsto> w_a, ''Variable_I'' \<mapsto> w_b, ''Variable_II'' \<mapsto> bias_ab])"
    by (auto simp: g example_namer_def w_a_def w_b_def bias_ab_def numeral_2_eq_2)
  have o: "observe (apply_fn (Some softmax) (Some ''layer'') s' b')
      = fn_on (Some (on_value softmax_op)) (Some ''layer'') (graph s') (content s' b')"
    using observe_apply_fn [of "Some (on_value softmax_op)" "Some ''layer''" s' b']
    by (simp add: softmax_def of_value_def)
  have "observe (tree_connect_layer example_namer 3 (Some softmax) (Some ''layer'') True None
                 two_builders [Leaf 0, Leaf 1])
       = (Inr (Tensor (Op ''softmax'' [Add (Add y_a y_b None) (Var bias_ab) None]
                        [None, Some 3] (Some ''layer'')),
               [''Variable_'' \<mapsto> w_a, ''Variable_I'' \<mapsto> w_b, ''Variable_II'' \<mapsto> bias_ab]),
          [w_a, w_b, bias_ab])"
    unfolding r(1) o r(2) r(3)
    by (simp add: fn_on_def on_value_def softmax_op_def y_a_def y_b_def
        w_a_def w_b_def bias_ab_def x_8_def x_5_def broadcast_def numeral_2_eq_2)
  with 1 a 3 s w 6 show ?thesis by blast
qed

text \<open>Two leaves with 2-D values of 2 and of 3 rows: each gets its weight, and the sum of
  the products, of shapes \<open>[2, 3]\<close> and \<open>[3, 3]\<close>, is refused by the framework.\<close>

theorem fan_in_uneven_rows_raises:
  "get_shape x_2_5 = [Some 2, Some 5] \<and> get_shape x_3_8 = [Some 3, Some 8]
   \<and> dfs (branches [Leaf 0, Leaf 1]) = [0, 1]
   \<and> map (tensor_of uneven_builders) [0, 1] = [Tensor x_2_5, Tensor x_3_8]
   \<and> fst (tree_connect_layer example_namer 3 None None False None uneven_builders
            [Leaf 0, Leaf 1]) = Inl ValueError"
  by (simp add: x_2_5_def x_3_8_def branches_def tensor_of_def uneven_builders_def builder_def
      new_Builder_def default_variables_def init_state_def tree_connect_layer_def
      connect_weights_def immutable_def copy_eq connect_weights_body_def int_shape_1_def
      tf_Variable_def set_item_def set_tensor_def tf_matmul_def dim_compatible_def
      add_builders_def new_dict_def dict_update_def tf_add_def broadcast_def example_namer_def
      Let_def)

end
